theory Spec2Isabelle
  imports Complex_Main "HOL-Library.Monad_Syntax"
begin

section \<open>JavaScript string primitives\<close>

text \<open>
  A JavaScript string is modelled as a \<open>string\<close>: a list of code units below 256
  (the Latin-1 part of UTF-16). The primitives below are the ones the two engines call.
\<close>

definition isSpace :: "char \<Rightarrow> bool" where
  \<comment> \<open>the regular expression class \<open>\s\<close> and the characters \<open>trim\<close> removes, below 256\<close>
  "isSpace c = (c \<in> set [CHR 0x09, CHR 0x0A, CHR 0x0B, CHR 0x0C, CHR 0x0D, CHR 0x20, CHR 0xA0])"

definition toLowerChar :: "char \<Rightarrow> char" where
  "toLowerChar c =
     (let n = (of_char c :: nat)
      in if (65 \<le> n \<and> n \<le> 90) \<or> (192 \<le> n \<and> n \<le> 222 \<and> n \<noteq> 215)
         then char_of (n + 32) else c)"

definition toLowerCase :: "string \<Rightarrow> string" where
  "toLowerCase s = map toLowerChar s"

definition startsWith :: "string \<Rightarrow> string \<Rightarrow> bool" where
  \<comment> \<open>\<open>s.startsWith(p)\<close>\<close>
  "startsWith s p = (take (length p) s = p)"

fun includesStr :: "string \<Rightarrow> string \<Rightarrow> bool" where
  \<comment> \<open>\<open>s.includes(p)\<close>: \<open>p\<close> occurs in \<open>s\<close>\<close>
  "includesStr [] p = (p = [])"
| "includesStr (c # cs) p = (startsWith (c # cs) p \<or> includesStr cs p)"

fun replaceFirstStr :: "string \<Rightarrow> string \<Rightarrow> string \<Rightarrow> string" where
  \<comment> \<open>\<open>s.replace(p, r)\<close> for a string pattern \<open>p\<close> and a replacement without \<open>$\<close>\<close>
  "replaceFirstStr [] p r = (if p = [] then r else [])"
| "replaceFirstStr (c # cs) p r =
     (if startsWith (c # cs) p then r @ drop (length p) (c # cs)
      else c # replaceFirstStr cs p r)"

definition splitFirst :: "char \<Rightarrow> string \<Rightarrow> string" where
  \<comment> \<open>\<open>s.split(d)[0]\<close>\<close>
  "splitFirst d s = takeWhile (\<lambda>c. c \<noteq> d) s"

definition trim :: "string \<Rightarrow> string" where
  "trim s = rev (dropWhile isSpace (rev (dropWhile isSpace s)))"

function hyphenate :: "string \<Rightarrow> string" where
  \<comment> \<open>\<open>s.replace(/\s+/g, '-')\<close>: every maximal run of white space becomes one hyphen\<close>
  "hyphenate [] = []"
| "hyphenate (c # cs) =
     (if isSpace c then CHR ''-'' # hyphenate (dropWhile isSpace cs)
      else c # hyphenate cs)"
  by pat_completeness auto
termination
  by (relation "measure length") (auto simp: length_dropWhile_le less_Suc_eq_le)

section \<open>The governance engine: data model\<close>

datatype Severity = CRITICAL | MAJOR | MINOR

record Violation =
  nodeName :: string
  message :: string
  severity :: Severity
  rule :: string
  suggestion :: string

text \<open>
  A design node. \<open>componentProperties\<close> holds \<open>Object.keys(node.componentProperties)\<close>
  (the engine reads the keys only), \<open>None\<close> when the node has no such field; \<open>children\<close>
  is \<open>None\<close> when the node has no \<open>children\<close> field.
\<close>

datatype DesignNode =
  DesignNode (nodeId: string) (name: string)
    (componentProperties: "string list option") (children: "DesignNode list option")

record PropSpec =
  propType :: string
  required :: bool
  enum :: "string list option"

record Composition =
  canContain :: "string list option"
  cannotContain :: "string list option"

record ComponentRule =
  props :: "(string \<times> PropSpec) list option"
  composition :: "Composition option"

text \<open>
  The registry is read through \<open>this.registry.components[key]\<close> only; it is the partial
  function that this property access computes.
\<close>

type_synonym Registry = "string \<rightharpoonup> ComponentRule"

datatype Status = VERIFIED | UNKNOWN | VIOLATION

text \<open>
  The advisory fragment of an unregistered component: the name it is filed under, the
  keys of its draft properties (each one \<open>{type: 'string', required: false}\<close>) and its
  composition. The four \<open>visuals\<close> entries copied from the node are left out.
\<close>

record Fragment =
  fragName :: string
  fragProps :: "string set"
  fragCanContain :: "string list"
  fragCannotContain :: "string list"

record ScannedComponent =
  compId :: string
  compName :: string
  lookupName :: string
  status :: Status
  fragment :: "Fragment option"

record Breakdown =
  bdCRITICAL :: nat
  bdMAJOR :: nat
  bdMINOR :: nat
  bdPASS :: nat

text \<open>The accumulator fields that \<open>validate\<close> resets and \<open>_recursiveCheck\<close> updates.\<close>

record Engine =
  globalScore :: int
  violations :: "Violation list"
  scannedComponents :: "ScannedComponent list"
  hasCriticalViolation :: bool
  breakdown :: Breakdown

record ValidationReport =
  score :: int
  reportViolations :: "Violation list"
  components :: "ScannedComponent list"
  reportBreakdown :: Breakdown
  valid :: bool

section \<open>The governance engine: operations\<close>

fun weights :: "Severity \<Rightarrow> int" where
  "weights CRITICAL = 50"
| "weights MAJOR = 20"
| "weights MINOR = 5"

fun bump :: "Severity \<Rightarrow> Breakdown \<Rightarrow> Breakdown" where
  \<comment> \<open>\<open>this.breakdown[severity]++\<close>\<close>
  "bump CRITICAL b = b\<lparr>bdCRITICAL := bdCRITICAL b + 1\<rparr>"
| "bump MAJOR b = b\<lparr>bdMAJOR := bdMAJOR b + 1\<rparr>"
| "bump MINOR b = b\<lparr>bdMINOR := bdMINOR b + 1\<rparr>"

definition addViolation ::
  "string \<Rightarrow> string \<Rightarrow> Severity \<Rightarrow> string \<Rightarrow> string \<Rightarrow> Engine \<Rightarrow> Engine" where
  "addViolation nm msg sev rl sug st =
     st\<lparr>violations := violations st @
           [\<lparr>nodeName = nm, message = msg, severity = sev, rule = rl, suggestion = sug\<rparr>],
        globalScore := globalScore st - weights sev,
        breakdown := bump sev (breakdown st),
        hasCriticalViolation := (if sev = CRITICAL then True else hasCriticalViolation st)\<rparr>"

definition baseNodeName :: "string \<Rightarrow> string" where
  \<comment> \<open>\<open>node.name.split('/')[0].trim().toLowerCase()\<close>\<close>
  "baseNodeName nm = toLowerCase (trim (splitFirst CHR ''/'' nm))"

definition stripPrefix :: "string \<Rightarrow> string" where
  \<comment> \<open>\<open>s.startsWith('app-') ? s.replace('app-', '') : s\<close>\<close>
  "stripPrefix s = (if startsWith s ''app-'' then replaceFirstStr s ''app-'' [] else s)"

definition nodeLookup :: "string \<Rightarrow> string" where
  \<comment> \<open>\<open>lookupName\<close> of a node, from its name\<close>
  "nodeLookup nm = stripPrefix (hyphenate (baseNodeName nm))"

definition parentLookup :: "string \<Rightarrow> string" where
  \<comment> \<open>\<open>parentLookup\<close>, from the parent's name\<close>
  "parentLookup nm = stripPrefix (hyphenate (toLowerCase nm))"

definition isComponent :: "Registry \<Rightarrow> string \<Rightarrow> bool" where
  "isComponent reg nm =
     (startsWith (baseNodeName nm) ''app-'' \<or> reg (nodeLookup nm) \<noteq> None)"

definition cleanProp :: "string \<Rightarrow> string" where
  \<comment> \<open>\<open>propKey.split('#')[0].toLowerCase()\<close>\<close>
  "cleanProp k = toLowerCase (splitFirst CHR ''#'' k)"

definition generateFragment :: "DesignNode \<Rightarrow> string \<Rightarrow> Fragment" where
  "generateFragment node nm =
     \<lparr>fragName = nm,
      fragProps = (case componentProperties node of None \<Rightarrow> {}
                   | Some ks \<Rightarrow> set (map cleanProp ks)),
      fragCanContain = (case children node of None \<Rightarrow> []
                        | Some cs \<Rightarrow> if length cs > 0 then [''*''] else []),
      fragCannotContain = []\<rparr>"

definition forbids :: "Registry \<Rightarrow> string \<Rightarrow> string \<Rightarrow> bool" where
  \<comment> \<open>the condition of the nesting check, for a parent's name and the node's lookup name\<close>
  "forbids reg pnm lk =
     (case reg (parentLookup pnm) of None \<Rightarrow> False
      | Some parentRules \<Rightarrow>
          (case composition parentRules of None \<Rightarrow> False
           | Some cmps \<Rightarrow>
               (case cannotContain cmps of None \<Rightarrow> False
                | Some cc \<Rightarrow> lk \<in> set cc \<or> ''*'' \<in> set cc)))"

definition nestingViolation :: "DesignNode \<Rightarrow> DesignNode \<Rightarrow> Engine \<Rightarrow> Engine" where
  \<open>nestingViolation parentNode node st =
     addViolation (name node)
       (''Illegal nesting: "'' @ nodeLookup (name node) @ ''" inside "'' @
          parentLookup (name parentNode) @ ''".'')
       CRITICAL ''Composition''
       (''Move out of "'' @ name parentNode @ ''".'') st\<close>

definition propertyStep :: "DesignNode \<Rightarrow> string list \<Rightarrow> string \<Rightarrow> Engine \<Rightarrow> Engine" where
  \<open>propertyStep node officialProps propKey st =
     (if cleanProp propKey \<notin> set officialProps
      then addViolation (name node) (''Unknown property "'' @ cleanProp propKey @ ''".'')
             MINOR ''Property Validation'' ''Use official props.'' st
      else st)\<close>

definition propertyCheck :: "ComponentRule \<Rightarrow> DesignNode \<Rightarrow> Engine \<Rightarrow> Engine" where
  "propertyCheck componentRules node st =
     (case (componentProperties node, props componentRules) of
        (Some keys, Some ps) \<Rightarrow>
           fold (propertyStep node (map (\<lambda>p. toLowerCase (fst p)) ps)) keys st
      | _ \<Rightarrow> st)"

text \<open>The body of \<open>_recursiveCheck\<close> for one node, before it recurses into the children.\<close>

definition checkNode :: "Registry \<Rightarrow> DesignNode option \<Rightarrow> DesignNode \<Rightarrow> Engine \<Rightarrow> Engine" where
  \<open>checkNode reg parentNode node st =
     (let lk = nodeLookup (name node) in
      if isComponent reg (name node) then
        (case reg lk of
           None \<Rightarrow>
             (let st1 = addViolation (name node) (''Component "'' @ lk @ ''" not in Registry.'')
                          CRITICAL ''Existence Check'' ''Register to officialize.'' st
              in st1\<lparr>scannedComponents := scannedComponents st1 @
                       [\<lparr>compId = nodeId node, compName = name node, lookupName = lk,
                         status = UNKNOWN, fragment = Some (generateFragment node lk)\<rparr>]\<rparr>)
         | Some componentRules \<Rightarrow>
             (let nested = (case parentNode of None \<Rightarrow> False
                            | Some p \<Rightarrow> forbids reg (name p) lk);
                  st1 = (case parentNode of None \<Rightarrow> st
                         | Some p \<Rightarrow> if nested then nestingViolation p node st else st);
                  st2 = propertyCheck componentRules node st1
              in st2\<lparr>scannedComponents := scannedComponents st2 @
                       [\<lparr>compId = nodeId node, compName = name node, lookupName = lk,
                         status = (if nested then VIOLATION else VERIFIED),
                         fragment = None\<rparr>]\<rparr>))
      else st)\<close>

fun recursiveCheck :: "Registry \<Rightarrow> DesignNode option \<Rightarrow> DesignNode \<Rightarrow> Engine \<Rightarrow> Engine" where
  "recursiveCheck reg parentNode (DesignNode i n cp ch) st =
     (let node = DesignNode i n cp ch;
          st1 = checkNode reg parentNode node st
      in case ch of None \<Rightarrow> st1
         | Some cs \<Rightarrow> fold (\<lambda>child. recursiveCheck reg (Some node) child) cs st1)"

definition initEngine :: Engine where
  "initEngine =
     \<lparr>globalScore = 100, violations = [], scannedComponents = [],
      hasCriticalViolation = False,
      breakdown = \<lparr>bdCRITICAL = 0, bdMAJOR = 0, bdMINOR = 0, bdPASS = 0\<rparr>\<rparr>"

definition validate :: "Registry \<Rightarrow> DesignNode \<Rightarrow> ValidationReport" where
  "validate reg node =
     (let st = recursiveCheck reg None node initEngine;
          sc = max 0 (globalScore st)
      in \<lparr>score = sc,
          reportViolations = violations st,
          components = scannedComponents st,
          reportBreakdown = (breakdown st)
            \<lparr>bdPASS := length (filter (\<lambda>c. status c = VERIFIED) (scannedComponents st))\<rparr>,
          valid = (\<not> hasCriticalViolation st \<and> sc \<ge> 90)\<rparr>)"

section \<open>The governance engine: notions the report is measured against\<close>

definition countSev :: "Severity \<Rightarrow> Violation list \<Rightarrow> nat" where
  \<comment> \<open>the number of violations of one severity in a list\<close>
  "countSev sev vs = length (filter (\<lambda>v. severity v = sev) vs)"

definition consistent :: "Engine \<Rightarrow> bool" where
  \<comment> \<open>the accumulators agree with the violation list\<close>
  "consistent st =
     (globalScore st = 100 - 50 * int (countSev CRITICAL (violations st))
                           - 20 * int (countSev MAJOR (violations st))
                           - 5 * int (countSev MINOR (violations st)) \<and>
      hasCriticalViolation st = (0 < countSev CRITICAL (violations st)) \<and>
      bdCRITICAL (breakdown st) = countSev CRITICAL (violations st) \<and>
      bdMAJOR (breakdown st) = countSev MAJOR (violations st) \<and>
      bdMINOR (breakdown st) = countSev MINOR (violations st))"

definition nodeViolations :: "Registry \<Rightarrow> DesignNode option \<Rightarrow> DesignNode \<Rightarrow> Violation list" where
  \<comment> \<open>the violations that scanning one node records, children apart\<close>
  "nodeViolations reg parentNode node = violations (checkNode reg parentNode node initEngine)"

fun treeViolations :: "Registry \<Rightarrow> DesignNode option \<Rightarrow> DesignNode \<Rightarrow> Violation list" where
  "treeViolations reg parentNode (DesignNode i n cp ch) =
     nodeViolations reg parentNode (DesignNode i n cp ch) @
     (case ch of None \<Rightarrow> []
      | Some cs \<Rightarrow> concat (map (treeViolations reg (Some (DesignNode i n cp ch))) cs))"

definition unknownProperty :: "DesignNode \<Rightarrow> string \<Rightarrow> Violation" where
  \<open>unknownProperty node propKey =
     \<lparr>nodeName = name node, message = ''Unknown property "'' @ cleanProp propKey @ ''".'',
      severity = MINOR, rule = ''Property Validation'', suggestion = ''Use official props.''\<rparr>\<close>

definition illegalNesting :: "DesignNode \<Rightarrow> DesignNode \<Rightarrow> Violation" where
  \<open>illegalNesting parentNode node =
     \<lparr>nodeName = name node,
      message = ''Illegal nesting: "'' @ nodeLookup (name node) @ ''" inside "'' @
          parentLookup (name parentNode) @ ''".'',
      severity = CRITICAL, rule = ''Composition'',
      suggestion = ''Move out of "'' @ name parentNode @ ''".''\<rparr>\<close>

definition unknownKeys :: "ComponentRule \<Rightarrow> DesignNode \<Rightarrow> string list" where
  \<comment> \<open>the property keys of a node that the rule does not declare\<close>
  "unknownKeys r node =
     (case (componentProperties node, props r) of
        (Some ks, Some ps) \<Rightarrow>
           filter (\<lambda>k. cleanProp k \<notin> set (map (\<lambda>p. toLowerCase (fst p)) ps)) ks
      | _ \<Rightarrow> [])"

definition withCanContain ::
  "(string \<Rightarrow> string list option \<Rightarrow> string list option) \<Rightarrow> Registry \<Rightarrow> Registry" where
  \<comment> \<open>the registry with every \<open>canContain\<close> entry replaced\<close>
  "withCanContain g reg =
     (\<lambda>k. map_option
        (\<lambda>r. r\<lparr>composition :=
                 map_option (\<lambda>c. c\<lparr>canContain := g k (canContain c)\<rparr>) (composition r)\<rparr>)
        (reg k))"

definition withRequired ::
  "(string \<Rightarrow> string \<Rightarrow> bool \<Rightarrow> bool) \<Rightarrow> Registry \<Rightarrow> Registry" where
  \<comment> \<open>the registry with every \<open>required\<close> flag replaced\<close>
  "withRequired g reg =
     (\<lambda>k. map_option
        (\<lambda>r. r\<lparr>props :=
                 map_option (map (\<lambda>p. (fst p, (snd p)\<lparr>required := g k (fst p) (required (snd p))\<rparr>)))
                   (props r)\<rparr>)
        (reg k))"

subsection \<open>A small registry and trees over it\<close>

definition buttonRule :: ComponentRule where
  "buttonRule =
     \<lparr>props = Some [(''variant'', \<lparr>propType = ''string'', required = True, enum = None\<rparr>)],
      composition = None\<rparr>"

definition cardRule :: ComponentRule where
  "cardRule =
     \<lparr>props = None,
      composition = Some \<lparr>canContain = Some [''icon''], cannotContain = Some [''button'']\<rparr>\<rparr>"

definition heroRule :: ComponentRule where
  "heroRule =
     \<lparr>props = None,
      composition = Some \<lparr>canContain = Some [''icon''], cannotContain = Some []\<rparr>\<rparr>"

definition exampleRegistry :: Registry where
  "exampleRegistry = [''button'' \<mapsto> buttonRule, ''card'' \<mapsto> cardRule, ''hero'' \<mapsto> heroRule]"

definition buttonNode :: DesignNode where
  "buttonNode = DesignNode ''2'' ''app-button'' (Some [''Variant#12:3'', ''size'']) None"

definition plainButton :: DesignNode where
  "plainButton = DesignNode ''2'' ''app-button'' None None"

definition cardNode :: DesignNode where
  "cardNode = DesignNode ''1'' ''Card'' None (Some [buttonNode])"

definition heroNode :: DesignNode where
  "heroNode = DesignNode ''1'' ''hero'' None (Some [plainButton])"

definition variantCard :: DesignNode where
  "variantCard = DesignNode ''1'' ''Card/Primary'' None (Some [plainButton])"

definition submitButton :: DesignNode where
  "submitButton = DesignNode ''12'' ''Button/Submit'' (Some [''Variant#4:0'']) None"

definition outlinedCard :: DesignNode where
  "outlinedCard = DesignNode ''11'' ''Card/Outlined'' None (Some [submitButton])"

definition plainCard :: DesignNode where
  "plainCard = DesignNode ''11'' ''Card'' None (Some [submitButton])"

definition pageOf :: "DesignNode \<Rightarrow> DesignNode" where
  \<comment> \<open>a frame that is no component, around one node\<close>
  "pageOf node = DesignNode ''10'' ''Checkout Page'' None (Some [node])"

fun recordedNestings :: "Registry \<Rightarrow> DesignNode option \<Rightarrow> DesignNode \<Rightarrow> Violation list" where
  \<comment> \<open>the illegal nestings in a tree, in pre-order, as the composition check finds them\<close>
  "recordedNestings reg parentNode (DesignNode i n cp ch) =
     (case parentNode of None \<Rightarrow> []
      | Some p \<Rightarrow>
          if reg (nodeLookup n) \<noteq> None \<and> forbids reg (name p) (nodeLookup n)
          then [illegalNesting p (DesignNode i n cp ch)] else []) @
     (case ch of None \<Rightarrow> []
      | Some cs \<Rightarrow> concat (map (recordedNestings reg (Some (DesignNode i n cp ch))) cs))"

section \<open>The healing pipeline: regular expressions\<close>

text \<open>
  Every regular expression of the pipeline is translated by hand into a function that
  matches it at the start of a text. Each one is deterministic: a greedy class or
  \<open>\s*\<close> is followed by a character outside it, so the longest run is the only one
  that can match. \<open>findFirst\<close> then finds the leftmost match, as \<open>match\<close> and
  \<open>replace\<close> without the flag \<open>g\<close> do.
\<close>

definition startsWithCI :: "string \<Rightarrow> string \<Rightarrow> bool" where
  \<comment> \<open>the lower-case ASCII pattern \<open>p\<close> matches at the start of \<open>s\<close> under the flag \<open>i\<close>\<close>
  "startsWithCI s p = (toLowerCase (take (length p) s) = p)"

definition lit :: "string \<Rightarrow> string \<Rightarrow> string option" where
  \<comment> \<open>a literal of a pattern: what is left of the text after it\<close>
  "lit p s = (if startsWith s p then Some (drop (length p) s) else None)"

definition spaces1 :: "string \<Rightarrow> string option" where
  \<comment> \<open>\<open>\s+\<close>\<close>
  "spaces1 s =
     (case s of [] \<Rightarrow> None
      | c # cs \<Rightarrow> if isSpace c then Some (dropWhile isSpace cs) else None)"

definition quote :: "string \<Rightarrow> string option" where
  \<comment> \<open>the class \<open>['"]\<close>\<close>
  "quote s =
     (case s of [] \<Rightarrow> None
      | c # cs \<Rightarrow> if c = CHR 0x27 \<or> c = CHR 0x22 then Some cs else None)"

definition isLineTerminator :: "char \<Rightarrow> bool" where
  \<comment> \<open>what \<open>.\<close> does not match and what \<open>^\<close> under the flag \<open>m\<close> follows, below 256\<close>
  "isLineTerminator c = (c = CHR 0x0A \<or> c = CHR 0x0D)"

definition uptoLast :: "char \<Rightarrow> string \<Rightarrow> string" where
  \<comment> \<open>the text up to its last \<open>c\<close>, empty when there is none\<close>
  "uptoLast c s = rev (dropWhile (\<lambda>x. x \<noteq> c) (rev s))"

fun findFirst :: "(string \<Rightarrow> 'a option) \<Rightarrow> string \<Rightarrow> (string \<times> 'a) option" where
  \<comment> \<open>the leftmost match of a pattern that matches no empty text, with the text before it\<close>
  "findFirst f [] = None"
| "findFirst f (c # cs) =
     (case f (c # cs) of
        Some x \<Rightarrow> Some ([], x)
      | None \<Rightarrow> map_option (\<lambda>(p, x). (c # p, x)) (findFirst f cs))"

function replaceAllStr :: "string \<Rightarrow> string \<Rightarrow> string \<Rightarrow> string" where
  \<comment> \<open>\<open>s.replace(new RegExp(p, 'g'), r)\<close> for a pattern \<open>p\<close> without special characters and
      a replacement without \<open>$\<close>\<close>
  "replaceAllStr [] p r = []"
| "replaceAllStr (c # cs) p r =
     (if p \<noteq> [] \<and> startsWith (c # cs) p
      then r @ replaceAllStr (drop (length p) (c # cs)) p r
      else c # replaceAllStr cs p r)"
  by pat_completeness auto
termination
  by (relation "measure (\<lambda>(s, p, r). length s)") auto

definition isDigit :: "char \<Rightarrow> bool" where
  "isDigit c = (c \<in> set ''0123456789'')"

definition digitVal :: "char \<Rightarrow> nat" where
  "digitVal c = of_char c - 48"

text \<open>
  The replacement patterns of \<open>String.prototype.replace\<close> with a string replacement
  (\<open>GetSubstitution\<close>, without named groups): \<open>$$\<close>, \<open>$`\<close>, \<open>$&\<close>, \<open>$'\<close> and \<open>$n\<close>, \<open>$nn\<close>
  for the groups \<open>caps\<close>; a two-digit index beyond the groups is read as one digit.
\<close>

fun expandTemplate :: "string list \<Rightarrow> string \<Rightarrow> string \<Rightarrow> string \<Rightarrow> string \<Rightarrow> string" where
  "expandTemplate caps pre mt post [] = []"
| "expandTemplate caps pre mt post [c] = [c]"
| "expandTemplate caps pre mt post (c # d # t) =
     (if c \<noteq> CHR ''$'' then c # expandTemplate caps pre mt post (d # t)
      else if d = CHR ''$'' then CHR ''$'' # expandTemplate caps pre mt post t
      else if d = CHR 0x60 then pre @ expandTemplate caps pre mt post t
      else if d = CHR ''&'' then mt @ expandTemplate caps pre mt post t
      else if d = CHR 0x27 then post @ expandTemplate caps pre mt post t
      else if isDigit d then
        (case t of
           e # t' \<Rightarrow>
             if isDigit e \<and> 10 * digitVal d + digitVal e \<le> length caps then
               (if 1 \<le> 10 * digitVal d + digitVal e
                then caps ! (10 * digitVal d + digitVal e - 1) @
                       expandTemplate caps pre mt post t'
                else c # d # e # expandTemplate caps pre mt post t')
             else if 1 \<le> digitVal d \<and> digitVal d \<le> length caps
             then caps ! (digitVal d - 1) @ expandTemplate caps pre mt post t
             else c # d # expandTemplate caps pre mt post t
         | [] \<Rightarrow>
             if 1 \<le> digitVal d \<and> digitVal d \<le> length caps
             then caps ! (digitVal d - 1)
             else [c, d])
      else c # expandTemplate caps pre mt post (d # t))"

section \<open>The healing pipeline: data model\<close>

datatype DefaultValue = StringDefault string | OtherDefault string

text \<open>
  An inferred input, with the fields that the modelled stages read. \<open>inDefault\<close> is the
  field \<open>default\<close>: \<open>None\<close> when undefined, \<open>StringDefault\<close> for a string,
  \<open>OtherDefault\<close> with its text for any other value.
\<close>

record InferredInput =
  inName :: string
  inType :: string
  inDefault :: "DefaultValue option"

record Artifact =
  fileName :: string
  content :: string
  language :: string
  artifactSize :: nat

record Files =
  typescript :: "Artifact option"
  html :: "Artifact option"
  scss :: "Artifact option"
  story :: "Artifact option"
  errors :: "string list"

section \<open>Content healing\<close>

definition openTag :: string where
  "openTag = ''<button''"

definition closeTag :: string where
  "closeTag = ''</button>''"

text \<open>
  \<open>/(<button[^>]*>)\s*(<\/button>)/gi\<close> at the start of a text: the two groups and the
  text after the match.
\<close>

definition matchEmptyButton :: "string \<Rightarrow> (string \<times> string \<times> string) option" where
  "matchEmptyButton s =
     (if startsWithCI s openTag then
        (let s1 = drop (length openTag) s
         in case dropWhile (\<lambda>c. c \<noteq> CHR ''>'') s1 of
              [] \<Rightarrow> None
            | gt # r \<Rightarrow>
                (let r' = dropWhile isSpace r
                 in if startsWithCI r' closeTag
                    then Some (take (length openTag) s @
                                 takeWhile (\<lambda>c. c \<noteq> CHR ''>'') s1 @ [gt],
                               take (length closeTag) r', drop (length closeTag) r')
                    else None))
      else None)"

text \<open>
  \<open>html.replace(emptyButtonRegex, `$1{{ ${v} }}$2`)\<close>. The binding variable \<open>v\<close> is
  \<open>label\<close> or a name that is one of five words up to case, so the template has no \<open>$\<close>
  but those of \<open>$1\<close> and \<open>$2\<close>.
\<close>

function healButtons :: "string \<Rightarrow> string \<Rightarrow> string" where
  "healButtons v [] = []"
| "healButtons v (c # cs) =
     (case matchEmptyButton (c # cs) of
        Some (g1, g2, rest) \<Rightarrow> g1 @ ''{{ '' @ v @ '' }}'' @ g2 @ healButtons v rest
      | None \<Rightarrow> c # healButtons v cs)"
  by pat_completeness auto
termination
proof -
  have shorter: "length rest < length s" if "matchEmptyButton s = Some (g1, g2, rest)"
    for s g1 g2 rest
  proof -
    from that have "toLowerCase (take (length openTag) s) = openTag"
      by (simp add: matchEmptyButton_def startsWithCI_def split: if_splits)
    then have "length (take (length openTag) s) = length openTag"
      using length_map [of toLowerChar "take (length openTag) s"] by (simp add: toLowerCase_def)
    then have l: "length openTag \<le> length s" by simp
    from that obtain gt r where
      d: "dropWhile (\<lambda>c. c \<noteq> CHR ''>'') (drop (length openTag) s) = gt # r"
      and rest: "rest = drop (length closeTag) (dropWhile isSpace r)"
      by (auto simp: matchEmptyButton_def Let_def split: if_splits list.splits)
    have "length r < length (drop (length openTag) s)"
      using length_dropWhile_le [of "\<lambda>c. c \<noteq> CHR ''>''" "drop (length openTag) s"] d
      by simp
    moreover have "length rest \<le> length r"
      using length_dropWhile_le [of isSpace r] rest by simp
    ultimately show ?thesis by simp
  qed
  show ?thesis
    by (relation "measure (\<lambda>(v, s). length s)") (auto dest: shorter)
qed

fun hasEmptyButton :: "string \<Rightarrow> bool" where
  \<comment> \<open>\<open>html.match(emptyButtonRegex)\<close> is not null\<close>
  "hasEmptyButton [] = False"
| "hasEmptyButton (c # cs) = (matchEmptyButton (c # cs) \<noteq> None \<or> hasEmptyButton cs)"

definition textNames :: "string list" where
  "textNames = [''label'', ''text'', ''caption'', ''title'', ''content'']"

definition bindingVar :: "InferredInput list option \<Rightarrow> string" where
  "bindingVar inferredInputs =
     (let inputs = (case inferredInputs of None \<Rightarrow> [] | Some xs \<Rightarrow> xs)
      in case find (\<lambda>i. toLowerCase (inName i) \<in> set textNames) inputs of
           Some textInput \<Rightarrow> inName textInput
         | None \<Rightarrow> ''label'')"

text \<open>\<open>healEmptyTags\<close>, from the markup to the new markup.\<close>

definition healEmptyTags :: "string \<Rightarrow> InferredInput list option \<Rightarrow> string" where
  "healEmptyTags markup inferredInputs =
     (if hasEmptyButton markup then healButtons (bindingVar inferredInputs) markup
      else markup)"

section \<open>Selector normalization\<close>

definition isClassChar :: "char \<Rightarrow> bool" where
  \<comment> \<open>the class \<open>[a-z0-9-_]\<close>\<close>
  "isClassChar c = (c \<in> set ''abcdefghijklmnopqrstuvwxyz0123456789-_'')"

definition matchClassDef :: "string \<Rightarrow> string option" where
  \<comment> \<open>\<open>\.([a-z0-9-_]+)\s*\{\<close> at the start of a text: the group\<close>
  "matchClassDef s =
     do {
       r0 \<leftarrow> lit ''.'' s;
       r1 \<leftarrow> lit ''{'' (dropWhile isSpace (dropWhile isClassChar r0));
       if takeWhile isClassChar r0 = [] then None else Some (takeWhile isClassChar r0)
     }"

fun firstClassDef :: "bool \<Rightarrow> string \<Rightarrow> string option" where
  \<comment> \<open>\<open>scss.match(/^\.([a-z0-9-_]+)\s*\{/m)\<close>; the flag says whether a line starts here\<close>
  "firstClassDef lineStart [] = None"
| "firstClassDef lineStart (c # cs) =
     (case (if lineStart then matchClassDef (c # cs) else None) of
        Some nm \<Rightarrow> Some nm
      | None \<Rightarrow> firstClassDef (isLineTerminator c) cs)"

definition normalizeSelectors :: "string \<Rightarrow> string \<Rightarrow> string" where
  \<comment> \<open>from the markup and the style sheet to the new style sheet\<close>
  \<open>normalizeSelectors markup sheet =
     (if includesStr markup ''class="btn'' \<or> includesStr markup ''class='btn'' then
        (if \<not> includesStr sheet ''.btn {'' \<and> \<not> includesStr sheet ''.btn:'' \<and>
            \<not> includesStr sheet ''.btn,'' then
           (case firstClassDef True sheet of
              Some hallucinatedClass \<Rightarrow>
                if hallucinatedClass \<noteq> ''btn''
                then replaceAllStr sheet (CHR ''.'' # hallucinatedClass) ''.btn''
                else sheet
            | None \<Rightarrow> sheet)
         else sheet)
      else sheet)\<close>

section \<open>Structural healing\<close>

definition matchImportInput :: "string \<Rightarrow> unit option" where
  \<comment> \<open>\<open>import\s*{[^}]*Input[^}]*}\s*from\<close> at the start of a text\<close>
  "matchImportInput s =
     do {
       r0 \<leftarrow> lit ''import'' s;
       r1 \<leftarrow> lit ''{'' (dropWhile isSpace r0);
       r2 \<leftarrow> lit ''}'' (dropWhile (\<lambda>c. c \<noteq> CHR ''}'') r1);
       r3 \<leftarrow> lit ''from'' (dropWhile isSpace r2);
       if includesStr (takeWhile (\<lambda>c. c \<noteq> CHR ''}'') r1) ''Input'' then Some () else None
     }"

definition matchCoreImport :: "string \<Rightarrow> (string \<times> string) option" where
  \<comment> \<open>\<open>import\s*{([^}]*)}\s*from\s*['"]@angular\/core['"]\<close> at the start of a text:
      the group and the text after the match\<close>
  "matchCoreImport s =
     do {
       r0 \<leftarrow> lit ''import'' s;
       r1 \<leftarrow> lit ''{'' (dropWhile isSpace r0);
       r2 \<leftarrow> lit ''}'' (dropWhile (\<lambda>c. c \<noteq> CHR ''}'') r1);
       r3 \<leftarrow> lit ''from'' (dropWhile isSpace r2);
       r4 \<leftarrow> quote (dropWhile isSpace r3);
       r5 \<leftarrow> lit ''@angular/core'' r4;
       r6 \<leftarrow> quote r5;
       Some (takeWhile (\<lambda>c. c \<noteq> CHR ''}'') r1, r6)
     }"

text \<open>
  \<open>(export\s+class\s+.*\{)\<close> at the start of a text: the group and the text after the
  match. The dot matches no line terminator and \<open>.*\<close> is greedy, so the match ends at the
  last brace of the line on which the white space after \<open>class\<close> ends.
\<close>

definition matchClassStart :: "string \<Rightarrow> (string \<times> string) option" where
  "matchClassStart s =
     do {
       r0 \<leftarrow> lit ''export'' s;
       r1 \<leftarrow> spaces1 r0;
       r2 \<leftarrow> lit ''class'' r1;
       r3 \<leftarrow> spaces1 r2;
       let hdr = uptoLast CHR ''{'' (takeWhile (\<lambda>c. \<not> isLineTerminator c) r3);
       if hdr = [] then None
       else Some (take (length s - length r3) s @ hdr, drop (length hdr) r3)
     }"

definition coreFrom :: string where
  \<open>coreFrom = ''from '@angular/core'' @ [CHR 0x27]\<close>

definition inputImport :: string where
  \<open>inputImport = ''import { Input } from '@angular/core'' @ [CHR 0x27] @ '';''\<close>

definition importFix :: "string \<Rightarrow> string" where
  \<comment> \<open>the step "Ensure Input import" of \<open>injectInferredInputs\<close>\<close>
  \<open>importFix code =
     (if \<not> includesStr code ''Input'' then
        (if includesStr code coreFrom
         then replaceFirstStr code (coreFrom @ '';'')
                (coreFrom @ '';'' @ [CHR 0x0A] @ inputImport)
         else inputImport @ [CHR 0x0A] @ code)
      else if findFirst matchImportInput code = None then
        (case findFirst matchCoreImport code of
           Some (front, imports, rest) \<Rightarrow>
             front @ ''import { '' @ imports @ '', Input } '' @ coreFrom @ rest
         | None \<Rightarrow> code)
      else code)\<close>

definition inputField :: "InferredInput \<Rightarrow> string" where
  \<open>inputField i =
     ''  @Input() '' @ inName i @ '': '' @ inType i @
     (case inDefault i of
        None \<Rightarrow> []
      | Some (StringDefault d) \<Rightarrow> '' = '' @ [CHR 0x27] @ d @ [CHR 0x27]
      | Some (OtherDefault d) \<Rightarrow> '' = '' @ d) @ '';''\<close>

fun joinLines :: "string list \<Rightarrow> string" where
  \<comment> \<open>\<open>xs.join('\n')\<close>\<close>
  "joinLines [] = []"
| "joinLines [x] = x"
| "joinLines (x # y # ys) = x @ [CHR 0x0A] @ joinLines (y # ys)"

definition injectedText :: "InferredInput list \<Rightarrow> string" where
  \<comment> \<open>what follows \<open>$1\<close> in the replacement of the class header\<close>
  "injectedText inputs =
     [CHR 0x0A] @ ''  // Stage 2: Injected Inputs'' @ [CHR 0x0A] @
     joinLines (map inputField inputs) @ [CHR 0x0A]"

definition classInject :: "string \<Rightarrow> InferredInput list \<Rightarrow> string" where
  "classInject code inputs =
     (case findFirst matchClassStart code of
        Some (front, hdr, rest) \<Rightarrow>
          front @ expandTemplate [hdr] front hdr rest (''$1'' @ injectedText inputs) @ rest
      | None \<Rightarrow> code)"

definition injectInferredInputs :: "string \<Rightarrow> InferredInput list option \<Rightarrow> string" where
  "injectInferredInputs tsCode inputs =
     (case inputs of
        None \<Rightarrow> tsCode
      | Some xs \<Rightarrow> if xs = [] then tsCode else classInject (importFix tsCode) xs)"

definition validateAndHealComponent :: "string \<Rightarrow> InferredInput list option \<Rightarrow> string" where
  "validateAndHealComponent tsCode inputs =
     (case inputs of
        None \<Rightarrow> tsCode
      | Some xs \<Rightarrow>
          if xs = [] then tsCode
          else if \<not> includesStr tsCode ''@Input'' then injectInferredInputs tsCode inputs
          else tsCode)"

section \<open>The healing pipeline: notions the stages are measured against\<close>

fun allClassDefs :: "bool \<Rightarrow> string \<Rightarrow> string list" where
  \<comment> \<open>the names of all class rules that start a line, in order; the flag as in
      \<open>firstClassDef\<close>\<close>
  "allClassDefs lineStart [] = []"
| "allClassDefs lineStart (c # cs) =
     (case (if lineStart then matchClassDef (c # cs) else None) of
        Some nm \<Rightarrow> nm # allClassDefs (isLineTerminator c) cs
      | None \<Rightarrow> allClassDefs (isLineTerminator c) cs)"

definition topLevelClasses :: "string \<Rightarrow> string list" where
  "topLevelClasses sheet = allClassDefs True sheet"


section \<open>The healing pipeline\<close>

text \<open>
  The parts of the pipeline that are taken as parameters: the extraction of a block from
  the generator's text (its patterns are built from the component's name), which returns
  an artifact or throws, \<open>Inl\<close> with the message; and the text transforms of the syntax
  repair, the sanitizer, the visual gatekeeper and the story generator, which throw
  nothing.
\<close>

record Stages =
  extractCodeBlock :: "string \<Rightarrow> string \<Rightarrow> string \<Rightarrow> string + Artifact"
  fixTemplateUrl :: "string \<Rightarrow> string \<Rightarrow> string"
  sanitizeTs :: "string \<Rightarrow> string"
  sanitizeHtml :: "string \<Rightarrow> string"
  overrideCss :: "Artifact option \<Rightarrow> string"
  storyContent :: "string \<Rightarrow> string \<Rightarrow> InferredInput list option \<Rightarrow> string"

definition emptyFiles :: Files where
  "emptyFiles = \<lparr>typescript = None, html = None, scss = None, story = None, errors = []\<rparr>"

definition gatekeeperError :: "string \<Rightarrow> Files \<Rightarrow> Files" where
  \<comment> \<open>the handler of the central \<open>catch\<close>\<close>
  "gatekeeperError msg files = files\<lparr>errors := errors files @ [''Gatekeeper error: '' @ msg]\<rparr>"

definition syntaxRepair :: "Stages \<Rightarrow> string \<Rightarrow> Files \<Rightarrow> Files" where
  "syntaxRepair sg componentName files =
     (case typescript files of
        Some ts \<Rightarrow>
          if content ts \<noteq> []
          then files\<lparr>typescript :=
                  Some (ts\<lparr>content := fixTemplateUrl sg componentName (content ts)\<rparr>)\<rparr>
          else files
      | None \<Rightarrow> files)"

definition extractStory :: "Stages \<Rightarrow> string \<Rightarrow> string \<Rightarrow> Files \<Rightarrow> Files" where
  \<comment> \<open>the inner \<open>try\<close>: a story that cannot be extracted is ignored\<close>
  "extractStory sg response componentName files =
     (case extractCodeBlock sg response ''typescript'' (componentName @ ''.stories'') of
        Inr st \<Rightarrow> files\<lparr>story := Some st\<rparr>
      | Inl e \<Rightarrow> files)"

definition sanitizeFrameworkCode :: "Stages \<Rightarrow> Files \<Rightarrow> Files" where
  "sanitizeFrameworkCode sg files =
     (case (typescript files, html files) of
        (Some ts, Some h) \<Rightarrow>
          files\<lparr>typescript := Some (ts\<lparr>content := sanitizeTs sg (content ts)\<rparr>),
                html := Some (h\<lparr>content := sanitizeHtml sg (content h)\<rparr>)\<rparr>
      | _ \<Rightarrow> files)"

definition visualGatekeeper :: "Stages \<Rightarrow> Files \<Rightarrow> Files" where
  "visualGatekeeper sg files =
     (case scss files of
        Some sc \<Rightarrow>
          files\<lparr>scss := Some (sc\<lparr>content := content sc @ overrideCss sg (typescript files)\<rparr>)\<rparr>
      | None \<Rightarrow> files)"

definition normalizeStage :: "Files \<Rightarrow> Files" where
  "normalizeStage files =
     (case (html files, scss files) of
        (Some h, Some sc) \<Rightarrow>
          files\<lparr>scss := Some (sc\<lparr>content := normalizeSelectors (content h) (content sc)\<rparr>)\<rparr>
      | _ \<Rightarrow> files)"

definition contentStage :: "InferredInput list option \<Rightarrow> Files \<Rightarrow> Files" where
  "contentStage inferredInputs files =
     (case html files of
        Some h \<Rightarrow>
          if content h \<noteq> []
          then files\<lparr>html := Some (h\<lparr>content := healEmptyTags (content h) inferredInputs\<rparr>)\<rparr>
          else files
      | None \<Rightarrow> files)"

definition structuralStage :: "InferredInput list option \<Rightarrow> Files \<Rightarrow> Files" where
  "structuralStage inferredInputs files =
     (case typescript files of
        Some ts \<Rightarrow>
          if content ts \<noteq> []
          then files\<lparr>typescript :=
                  Some (ts\<lparr>content := validateAndHealComponent (content ts) inferredInputs\<rparr>)\<rparr>
          else files
      | None \<Rightarrow> files)"

definition generatedStory ::
  "Stages \<Rightarrow> string \<Rightarrow> string \<Rightarrow> InferredInput list option \<Rightarrow> Artifact" where
  "generatedStory sg tsCode componentName inputs =
     \<lparr>fileName = toLowerCase componentName @ ''.stories.ts'',
      content = storyContent sg tsCode componentName inputs,
      language = ''typescript'',
      artifactSize = length (storyContent sg tsCode componentName inputs)\<rparr>"

definition validateAndHealStory ::
  "Stages \<Rightarrow> Artifact option \<Rightarrow> string \<Rightarrow> string \<Rightarrow> InferredInput list option \<Rightarrow> Artifact"
  where
  "validateAndHealStory sg existingStory tsCode componentName inputs =
     (case existingStory of
        Some st \<Rightarrow>
          if content st \<noteq> [] \<and> includesStr (content st) ''Meta'' then st
          else generatedStory sg tsCode componentName inputs
      | None \<Rightarrow> generatedStory sg tsCode componentName inputs)"

definition storyStage :: "Stages \<Rightarrow> string \<Rightarrow> InferredInput list option \<Rightarrow> Files \<Rightarrow> Files" where
  "storyStage sg componentName inferredInputs files =
     files\<lparr>story :=
       Some (validateAndHealStory sg (story files)
               (case typescript files of Some ts \<Rightarrow> content ts | None \<Rightarrow> [])
               componentName inferredInputs)\<rparr>"

definition isWordChar :: "char \<Rightarrow> bool" where
  \<comment> \<open>the class \<open>\w\<close>\<close>
  "isWordChar c =
     (c \<in> set ''abcdefghijklmnopqrstuvwxyzABCDEFGHIJKLMNOPQRSTUVWXYZ0123456789_'')"

definition matchExportClass :: "string \<Rightarrow> unit option" where
  \<comment> \<open>\<open>export\s+class\s+(\w+)\<close> at the start of a text\<close>
  "matchExportClass s =
     do {
       r0 \<leftarrow> lit ''export'' s;
       r1 \<leftarrow> spaces1 r0;
       r2 \<leftarrow> lit ''class'' r1;
       r3 \<leftarrow> spaces1 r2;
       case r3 of [] \<Rightarrow> None | c # cs \<Rightarrow> if isWordChar c then Some () else None
     }"

definition validateTypeScriptComponent :: "string \<Rightarrow> string list" where
  \<comment> \<open>the errors it pushes\<close>
  "validateTypeScriptComponent code =
     (if \<not> includesStr code ''@Component''
      then [''TypeScript file missing @Component decorator''] else []) @
     (if findFirst matchExportClass code = None
      then [''TypeScript file missing export class''] else []) @
     (if \<not> includesStr code ''import'' \<or> \<not> includesStr code ''@angular/core''
      then [''TypeScript file missing Angular imports''] else [])"

definition validateHtmlTemplate :: "string \<Rightarrow> string list" where
  "validateHtmlTemplate markup =
     (if length markup < 10 then [''HTML template appears to be too short''] else [])"

definition requiredFile :: "string \<Rightarrow> Artifact option \<Rightarrow> string list" where
  \<comment> \<open>one round of the loop over the four required files\<close>
  "requiredFile fileType file =
     (case file of
        None \<Rightarrow> [''Missing '' @ fileType @ '' file'']
      | Some a \<Rightarrow> if content a = [] then [''Empty '' @ fileType @ '' file content''] else [])"

definition validateExtractedFiles :: "Files \<Rightarrow> Files" where
  "validateExtractedFiles files =
     files\<lparr>errors := errors files @
       requiredFile ''typescript'' (typescript files) @
       requiredFile ''html'' (html files) @
       requiredFile ''scss'' (scss files) @
       requiredFile ''story'' (story files) @
       (case typescript files of
          Some ts \<Rightarrow> if content ts \<noteq> [] then validateTypeScriptComponent (content ts) else []
        | None \<Rightarrow> []) @
       (case html files of
          Some h \<Rightarrow> if content h \<noteq> [] then validateHtmlTemplate (content h) else []
        | None \<Rightarrow> [])\<rparr>"

definition healStages ::
  "Stages \<Rightarrow> string \<Rightarrow> string \<Rightarrow> InferredInput list option \<Rightarrow> Files \<Rightarrow> Files" where
  \<comment> \<open>what follows the three extractions inside the \<open>try\<close>\<close>
  "healStages sg response componentName inferredInputs files =
     validateExtractedFiles
       (storyStage sg componentName inferredInputs
         (structuralStage inferredInputs
           (contentStage inferredInputs
             (normalizeStage
               (visualGatekeeper sg
                 (sanitizeFrameworkCode sg
                   (extractStory sg response componentName
                     (syntaxRepair sg componentName files))))))))"

definition parseGeminiResponse ::
  "Stages \<Rightarrow> string \<Rightarrow> string \<Rightarrow> InferredInput list option \<Rightarrow> Files" where
  "parseGeminiResponse sg response componentName inferredInputs =
     (case extractCodeBlock sg response ''typescript'' componentName of
        Inl e \<Rightarrow> gatekeeperError e emptyFiles
      | Inr ts \<Rightarrow>
          (case extractCodeBlock sg response ''html'' componentName of
             Inl e \<Rightarrow> gatekeeperError e (emptyFiles\<lparr>typescript := Some ts\<rparr>)
           | Inr h \<Rightarrow>
               (case extractCodeBlock sg response ''scss'' componentName of
                  Inl e \<Rightarrow> gatekeeperError e (emptyFiles\<lparr>typescript := Some ts, html := Some h\<rparr>)
                | Inr sc \<Rightarrow>
                    healStages sg response componentName inferredInputs
                      (emptyFiles\<lparr>typescript := Some ts, html := Some h, scss := Some sc\<rparr>))))"

definition missingOrEmpty :: "Artifact option \<Rightarrow> bool" where
  "missingOrEmpty file = (case file of None \<Rightarrow> True | Some a \<Rightarrow> content a = [])"

definition incomplete :: "Files \<Rightarrow> bool" where
  \<comment> \<open>one of the four artifacts is missing or has empty content\<close>
  "incomplete files =
     (missingOrEmpty (typescript files) \<or> missingOrEmpty (html files) \<or>
      missingOrEmpty (scss files) \<or> missingOrEmpty (story files))"

section \<open>The healing pipeline: further notions and example inputs\<close>

definition buttonMatch :: "string \<Rightarrow> string \<Rightarrow> string \<Rightarrow> bool" where
  \<comment> \<open>the texts of a match of the empty-button pattern: the first group, the white space
      and the second group\<close>
  "buttonMatch g1 w g2 =
     (\<exists>b a. g1 = b @ a @ [CHR ''>''] \<and> toLowerCase b = openTag \<and> CHR ''>'' \<notin> set a \<and>
            list_all isSpace w \<and> toLowerCase g2 = closeTag)"


definition ready :: "Files \<Rightarrow> bool" where
  \<comment> \<open>the three extracted artifacts are there and no error is recorded\<close>
  "ready files =
     (typescript files \<noteq> None \<and> html files \<noteq> None \<and> scss files \<noteq> None \<and>
      errors files = [])"

subsection \<open>Markup and style sheets\<close>

definition emptyButtonMarkup :: string where
  \<open>emptyButtonMarkup = ''<button class="btn"></button>''\<close>

definition healedButtonMarkup :: string where
  \<open>healedButtonMarkup = ''<button class="btn">{{ label }}</button>''\<close>

definition mixedMarkup :: string where
  "mixedMarkup = ''<BUTTON <button id=1>   </Button> <button>a</button><button>  </button>''"

definition btnMarkup :: string where
  \<open>btnMarkup = ''<button class="btn">Go</button>''\<close>

definition twoClassSheet :: string where
  "twoClassSheet =
     ''.primary-button { color: red; }'' @ [CHR 0x0A] @ ''.secondary { color: blue; }''"

definition oneClassSheet :: string where
  "oneClassSheet =
     '':host { display: block; }'' @ [CHR 0x0A] @
     ''.my-button { color: red; }'' @ [CHR 0x0A] @ ''.my-button:hover { color: blue; }''"

subsection \<open>Inferred inputs and structural artifacts\<close>

definition labelInput :: InferredInput where
  "labelInput = \<lparr>inName = ''label'', inType = ''string'', inDefault = None\<rparr>"




subsection \<open>Stages\<close>

text \<open>
  Stages for the examples: the extraction throws for the listed pairs of language and
  name and returns the whole response as the block otherwise; the text transforms change
  nothing, the override block and the story are fixed texts.
\<close>

definition exampleStages :: "(string \<times> string) list \<Rightarrow> Stages" where
  "exampleStages failing =
     \<lparr>extractCodeBlock = (\<lambda>response lang nm.
         if (lang, nm) \<in> set failing then Inl (''No '' @ lang @ '' code block found'')
         else Inr \<lparr>fileName = toLowerCase nm @ ''.component.'' @ lang, content = response,
                   language = lang, artifactSize = length response\<rparr>),
      fixTemplateUrl = (\<lambda>nm code. code),
      sanitizeTs = (\<lambda>code. code),
      sanitizeHtml = (\<lambda>code. code),
      overrideCss = (\<lambda>ts. '':host { box-sizing: border-box !important; }''),
      storyContent = (\<lambda>code nm inputs. ''export default meta;'')\<rparr>"

definition exampleResponse :: string where
  \<open>exampleResponse = ''<button class="btn"></button>''\<close>

section \<open>The colour helpers: numbers\<close>

text \<open>
  A JavaScript number is a binary64 floating-point value. A finite one is modelled by the
  rational number it denotes; the sign of a zero is dropped, no operation used here tells
  the two zeros apart. An arithmetic operation of the source is the exact operation on
  the rationals followed by \<open>fl\<close>, which rounds to the nearest binary64 value, a tie
  going to the even significand, with gradual underflow. Where the rounded value is
  \<open>2 ^ 1024\<close> or more in magnitude the source has an infinity: infinities and NaN are
  outside the model, and the operation is \<open>None\<close> there.
\<close>

function bitLength :: "int \<Rightarrow> int" where
  \<comment> \<open>the number of binary digits of a positive integer\<close>
  "bitLength n = (if n \<le> 0 then 0 else 1 + bitLength (n div 2))"
  by auto

termination bitLength
  by (relation "measure nat") auto

declare bitLength.simps [simp del]

definition pow2 :: "int \<Rightarrow> rat" where
  "pow2 e = power_int 2 e"

definition expo :: "rat \<Rightarrow> int" where
  \<comment> \<open>the binary exponent of a number that is not zero: \<open>2 ^ expo x \<le> \<bar>x\<bar> < 2 ^ (expo x + 1)\<close>\<close>
  "expo x =
     (let (p, q) = quotient_of \<bar>x\<bar>;
          k = bitLength p - bitLength q
      in if pow2 k \<le> \<bar>x\<bar> then k else k - 1)"

definition ulp :: "rat \<Rightarrow> rat" where
  \<comment> \<open>the distance between the binary64 values around \<open>x\<close>: 53 significant bits, and
      the least exponent -1022\<close>
  "ulp x = pow2 (max (expo x) (- 1022) - 52)"

definition roundEven :: "rat \<Rightarrow> int" where
  \<comment> \<open>the nearest integer, a tie going to the even one\<close>
  "roundEven q =
     (let f = \<lfloor>q\<rfloor>; d = q - of_int f
      in if d < 1 / 2 then f else if 1 / 2 < d then f + 1 else if even f then f else f + 1)"

definition fl :: "rat \<Rightarrow> rat option" where
  \<comment> \<open>the binary64 value of a real result; the test is \<open>\<bar>y\<bar> < 2 ^ 1024\<close>\<close>
  "fl x =
     (if x = 0 then Some 0
      else let y = of_int (roundEven (x / ulp x)) * ulp x
           in if expo y < 1024 then Some y else None)"

definition fmul :: "rat \<Rightarrow> rat \<Rightarrow> rat option" where
  \<comment> \<open>\<open>a * b\<close>\<close>
  "fmul a b = fl (a * b)"

definition fadd :: "rat \<Rightarrow> rat \<Rightarrow> rat option" where
  \<comment> \<open>\<open>a + b\<close>\<close>
  "fadd a b = fl (a + b)"

definition fdiv :: "rat \<Rightarrow> rat \<Rightarrow> rat option" where
  \<comment> \<open>\<open>a / b\<close>; a division by zero gives an infinity or NaN\<close>
  "fdiv a b = (if b = 0 then None else fl (a / b))"

definition mathRound :: "rat \<Rightarrow> int" where
  \<comment> \<open>\<open>Math.round(x)\<close>: the nearest integer, a tie going up\<close>
  "mathRound x = \<lfloor>x + 1 / 2\<rfloor>"

definition hexDigit :: "int \<Rightarrow> char" where
  "hexDigit d = ''0123456789abcdef'' ! nat d"

function hexDigits :: "int \<Rightarrow> string" where
  "hexDigits n = (if n < 16 then [hexDigit n] else hexDigits (n div 16) @ [hexDigit (n mod 16)])"
  by auto

termination hexDigits
  by (relation "measure nat") auto

declare hexDigits.simps [simp del]

definition toString16 :: "int \<Rightarrow> string" where
  \<comment> \<open>\<open>n.toString(16)\<close> for an integer\<close>
  "toString16 n = (if n < 0 then CHR ''-'' # hexDigits (- n) else hexDigits n)"

definition toUpperChar :: "char \<Rightarrow> char" where
  "toUpperChar c =
     (let n = (of_char c :: nat)
      in if 97 \<le> n \<and> n \<le> 122 then char_of (n - 32) else c)"

definition toUpperCase :: "string \<Rightarrow> string" where
  \<comment> \<open>\<open>s.toUpperCase()\<close> for a text of ASCII characters, as the colour codes are\<close>
  "toUpperCase s = map toUpperChar s"

section \<open>The colour helpers: operations\<close>

definition toHex :: "rat \<Rightarrow> string option" where
  \<comment> \<open>the local function \<open>toHex\<close> of \<open>rgbToHex\<close>\<close>
  "toHex c =
     do {
       x \<leftarrow> fmul c 255;
       let hex = toString16 (mathRound x);
       Some (if length hex = 1 then ''0'' @ hex else hex)
     }"

definition rgbToHex :: "rat \<Rightarrow> rat \<Rightarrow> rat \<Rightarrow> string option" where
  "rgbToHex r g b =
     do {
       hr \<leftarrow> toHex r;
       hg \<leftarrow> toHex g;
       hb \<leftarrow> toHex b;
       Some (toUpperCase (''#'' @ hr @ hg @ hb))
     }"

definition luminance :: "rat \<Rightarrow> rat \<Rightarrow> rat \<Rightarrow> rat option" where
  \<comment> \<open>the local constant \<open>luminance\<close> of \<open>getContrastColor\<close>:
      \<open>(0.299 * r * 255 + 0.587 * g * 255 + 0.114 * b * 255) / 255\<close>, every literal and
      every operation rounded, in the order of evaluation\<close>
  "luminance r g b =
     do {
       c1 \<leftarrow> fl (299 / 1000);
       x1 \<leftarrow> fmul c1 r;
       x2 \<leftarrow> fmul x1 255;
       c2 \<leftarrow> fl (587 / 1000);
       y1 \<leftarrow> fmul c2 g;
       y2 \<leftarrow> fmul y1 255;
       s1 \<leftarrow> fadd x2 y2;
       c3 \<leftarrow> fl (114 / 1000);
       z1 \<leftarrow> fmul c3 b;
       z2 \<leftarrow> fmul z1 255;
       s2 \<leftarrow> fadd s1 z2;
       fdiv s2 255
     }"

definition getContrastColor :: "rat \<Rightarrow> rat \<Rightarrow> rat \<Rightarrow> string option" where
  "getContrastColor r g b =
     do {
       lum \<leftarrow> luminance r g b;
       Some (if 1 / 2 < lum then ''#000000'' else ''#FFFFFF'')
     }"

definition exactLuminance :: "rat \<Rightarrow> rat \<Rightarrow> rat \<Rightarrow> rat" where
  \<comment> \<open>the luminance \<open>L = 0.299r + 0.587g + 0.114b\<close> of the specification, in exact
      arithmetic\<close>
  "exactLuminance r g b = 299 / 1000 * r + 587 / 1000 * g + 114 / 1000 * b"

section \<open>The governance engine: the accumulators follow the violation list\<close>

lemma consistent_init: "consistent initEngine"
  by (simp add: consistent_def initEngine_def countSev_def)

lemma consistent_addViolation:
  "consistent st \<Longrightarrow> consistent (addViolation nm msg sev rl sug st)"
  by (cases sev) (simp_all add: consistent_def addViolation_def countSev_def)

lemma consistent_scanned:
  "consistent st \<Longrightarrow> consistent (st\<lparr>scannedComponents := x\<rparr>)"
  by (simp add: consistent_def)

lemma consistent_propertyStep:
  "consistent st \<Longrightarrow> consistent (propertyStep node ops k st)"
  by (simp add: propertyStep_def consistent_addViolation)

lemma consistent_fold:
  assumes "\<And>x s. x \<in> set xs \<Longrightarrow> consistent s \<Longrightarrow> consistent (f x s)"
  shows "consistent st \<Longrightarrow> consistent (fold f xs st)"
  using assms by (induction xs arbitrary: st) simp_all

lemma consistent_propertyCheck:
  "consistent st \<Longrightarrow> consistent (propertyCheck r node st)"
  by (auto simp: propertyCheck_def consistent_fold consistent_propertyStep
           split: option.splits)

lemma consistent_checkNode:
  "consistent st \<Longrightarrow> consistent (checkNode reg p node st)"
  by (auto simp: checkNode_def Let_def nestingViolation_def
        intro!: consistent_scanned consistent_propertyCheck consistent_addViolation
        split: option.splits)

lemma consistent_recursiveCheck:
  "consistent st \<Longrightarrow> consistent (recursiveCheck reg p node st)"
proof (induction reg p node st rule: recursiveCheck.induct)
  case (1 reg parentNode i n cp ch st)
  show ?case
  proof (cases ch)
    case None
    then show ?thesis using "1.prems" by (simp add: consistent_checkNode)
  next
    case (Some cs)
    have "consistent (fold (\<lambda>child. recursiveCheck reg (Some (DesignNode i n cp ch)) child) cs
             (checkNode reg parentNode (DesignNode i n cp ch) st))"
      by (rule consistent_fold) (use Some "1.IH" "1.prems" in \<open>auto simp: consistent_checkNode\<close>)
    then show ?thesis using Some by (simp add: Let_def)
  qed
qed

lemma consistent_validate: "consistent (recursiveCheck reg None node initEngine)"
  by (rule consistent_recursiveCheck) (rule consistent_init)

text \<open>
  Claim C1. For every registry and tree, the score of the report is
  \<open>max(0, 100 - 50 * CRITICAL - 20 * MAJOR - 5 * MINOR)\<close>, counting the violations of
  the report by severity; it lies between 0 and 100; and \<open>valid\<close> holds exactly when the
  report has no CRITICAL violation and the score is at least 90.
\<close>

theorem validate_score_valid:
  "score (validate reg node) =
     max 0 (100 - 50 * int (countSev CRITICAL (reportViolations (validate reg node)))
                - 20 * int (countSev MAJOR (reportViolations (validate reg node)))
                - 5 * int (countSev MINOR (reportViolations (validate reg node)))) \<and>
   0 \<le> score (validate reg node) \<and> score (validate reg node) \<le> 100 \<and>
   valid (validate reg node) =
     (countSev CRITICAL (reportViolations (validate reg node)) = 0 \<and>
      score (validate reg node) \<ge> 90)"
  using consistent_validate [of reg node]
  by (auto simp: validate_def Let_def consistent_def)

theorem validate_score_valid_witness:
  "score (validate exampleRegistry cardNode) = 45 \<and>
   countSev CRITICAL (reportViolations (validate exampleRegistry cardNode)) = 1 \<and>
   countSev MINOR (reportViolations (validate exampleRegistry cardNode)) = 1 \<and>
   \<not> valid (validate exampleRegistry cardNode)"
proof -
  have c: "countSev CRITICAL (reportViolations (validate exampleRegistry cardNode)) = 1"
    by code_simp
  have m: "countSev MINOR (reportViolations (validate exampleRegistry cardNode)) = 1"
    by code_simp
  have j: "countSev MAJOR (reportViolations (validate exampleRegistry cardNode)) = 0"
    by code_simp
  show ?thesis
    using validate_score_valid [of exampleRegistry cardNode] by (simp add: c m j)
qed

text \<open>
  Claim C10. In every report, the CRITICAL, MAJOR and MINOR counters of the breakdown are
  the numbers of violations of that severity in the report's list: recording a violation
  appends one entry to the list and raises the counter of its severity by one, and no
  other counter.
\<close>

theorem validate_breakdown_counts:
  "bdCRITICAL (reportBreakdown (validate reg node)) =
     countSev CRITICAL (reportViolations (validate reg node)) \<and>
   bdMAJOR (reportBreakdown (validate reg node)) =
     countSev MAJOR (reportViolations (validate reg node)) \<and>
   bdMINOR (reportBreakdown (validate reg node)) =
     countSev MINOR (reportViolations (validate reg node)) \<and>
   violations (addViolation nm msg sev rl sug st) =
     violations st @
       [\<lparr>nodeName = nm, message = msg, severity = sev, rule = rl, suggestion = sug\<rparr>] \<and>
   bdCRITICAL (breakdown (addViolation nm msg sev rl sug st)) =
     bdCRITICAL (breakdown st) + (if sev = CRITICAL then 1 else 0) \<and>
   bdMAJOR (breakdown (addViolation nm msg sev rl sug st)) =
     bdMAJOR (breakdown st) + (if sev = MAJOR then 1 else 0) \<and>
   bdMINOR (breakdown (addViolation nm msg sev rl sug st)) =
     bdMINOR (breakdown st) + (if sev = MINOR then 1 else 0) \<and>
   bdPASS (breakdown (addViolation nm msg sev rl sug st)) = bdPASS (breakdown st)"
proof -
  have "bdCRITICAL (breakdown (addViolation nm msg sev rl sug st)) =
          bdCRITICAL (breakdown st) + (if sev = CRITICAL then 1 else 0) \<and>
        bdMAJOR (breakdown (addViolation nm msg sev rl sug st)) =
          bdMAJOR (breakdown st) + (if sev = MAJOR then 1 else 0) \<and>
        bdMINOR (breakdown (addViolation nm msg sev rl sug st)) =
          bdMINOR (breakdown st) + (if sev = MINOR then 1 else 0) \<and>
        bdPASS (breakdown (addViolation nm msg sev rl sug st)) = bdPASS (breakdown st)"
    by (cases sev) (simp_all add: addViolation_def)
  moreover have "violations (addViolation nm msg sev rl sug st) =
     violations st @
       [\<lparr>nodeName = nm, message = msg, severity = sev, rule = rl, suggestion = sug\<rparr>]"
    by (simp add: addViolation_def)
  moreover have "bdCRITICAL (reportBreakdown (validate reg node)) =
     countSev CRITICAL (reportViolations (validate reg node)) \<and>
   bdMAJOR (reportBreakdown (validate reg node)) =
     countSev MAJOR (reportViolations (validate reg node)) \<and>
   bdMINOR (reportBreakdown (validate reg node)) =
     countSev MINOR (reportViolations (validate reg node))"
    using consistent_validate [of reg node]
    by (simp add: validate_def Let_def consistent_def)
  ultimately show ?thesis by blast
qed

theorem validate_breakdown_counts_witness:
  "bdCRITICAL (reportBreakdown (validate exampleRegistry cardNode)) = 1 \<and>
   bdMAJOR (reportBreakdown (validate exampleRegistry cardNode)) = 0 \<and>
   bdMINOR (reportBreakdown (validate exampleRegistry cardNode)) = 1 \<and>
   length (reportViolations (validate exampleRegistry cardNode)) = 2"
proof -
  have c: "countSev CRITICAL (reportViolations (validate exampleRegistry cardNode)) = 1"
    by code_simp
  have m: "countSev MINOR (reportViolations (validate exampleRegistry cardNode)) = 1"
    by code_simp
  have j: "countSev MAJOR (reportViolations (validate exampleRegistry cardNode)) = 0"
    by code_simp
  have l: "length (reportViolations (validate exampleRegistry cardNode)) = 2"
    by code_simp
  show ?thesis
    using validate_breakdown_counts [of exampleRegistry cardNode "[]" "[]" MINOR "[]" "[]" initEngine]
    by (simp add: c m j l)
qed

section \<open>The governance engine: what scanning one node records\<close>

lemma violations_propertyStep:
  "violations (propertyStep node ops k st) =
     violations st @ (if cleanProp k \<notin> set ops then [unknownProperty node k] else [])"
  by (simp add: propertyStep_def addViolation_def unknownProperty_def)

lemma violations_fold_propertyStep:
  "violations (fold (propertyStep node ops) ks st) =
     violations st @ map (unknownProperty node) (filter (\<lambda>k. cleanProp k \<notin> set ops) ks)"
  by (induction ks arbitrary: st) (simp_all add: violations_propertyStep)

lemma violations_propertyCheck:
  "violations (propertyCheck r node st) =
     violations st @ map (unknownProperty node) (unknownKeys r node)"
  by (auto simp: propertyCheck_def unknownKeys_def violations_fold_propertyStep
        split: option.splits)

lemma violations_nestingViolation:
  "violations (nestingViolation p node st) = violations st @ [illegalNesting p node]"
  by (simp add: nestingViolation_def addViolation_def illegalNesting_def)

lemma violations_checkNode_governed:
  assumes "reg (nodeLookup (name node)) = Some r"
  shows "violations (checkNode reg parentNode node st) =
     violations st @
     (case parentNode of None \<Rightarrow> []
      | Some p \<Rightarrow> if forbids reg (name p) (nodeLookup (name node))
                  then [illegalNesting p node] else []) @
     map (unknownProperty node) (unknownKeys r node)"
  using assms
  by (auto simp: checkNode_def Let_def isComponent_def violations_propertyCheck
        violations_nestingViolation split: option.splits)

lemma violations_checkNode_unregistered:
  assumes "reg (nodeLookup (name node)) = None"
  shows "filter (\<lambda>v. rule v = ''Property Validation'')
           (violations (checkNode reg parentNode node initEngine)) = []"
  using assms
  by (simp add: checkNode_def Let_def addViolation_def initEngine_def)

lemma violations_checkNode:
  "violations (checkNode reg parentNode node st) =
     violations st @ nodeViolations reg parentNode node"
proof (cases "reg (nodeLookup (name node))")
  case None
  then show ?thesis
    by (simp add: nodeViolations_def checkNode_def Let_def addViolation_def initEngine_def)
next
  case (Some r)
  show ?thesis
    using violations_checkNode_governed [of reg node r parentNode st, OF Some]
      violations_checkNode_governed [of reg node r parentNode initEngine, OF Some]
    by (simp add: nodeViolations_def initEngine_def)
qed

lemma violations_fold_append:
  assumes "\<And>x s. x \<in> set xs \<Longrightarrow> violations (f x s) = violations s @ g x"
  shows "violations (fold f xs st) = violations st @ concat (map g xs)"
  using assms by (induction xs arbitrary: st) simp_all

lemma violations_recursiveCheck:
  "violations (recursiveCheck reg p node st) = violations st @ treeViolations reg p node"
proof (induction reg p node st rule: recursiveCheck.induct)
  case (1 reg parentNode i n cp ch st)
  show ?case
  proof (cases ch)
    case None
    then show ?thesis by (simp add: violations_checkNode)
  next
    case (Some cs)
    have "violations (fold (\<lambda>child. recursiveCheck reg (Some (DesignNode i n cp ch)) child) cs
             (checkNode reg parentNode (DesignNode i n cp ch) st)) =
          violations (checkNode reg parentNode (DesignNode i n cp ch) st) @
          concat (map (treeViolations reg (Some (DesignNode i n cp ch))) cs)"
      by (rule violations_fold_append) (use Some "1.IH" in auto)
    then show ?thesis using Some by (simp add: Let_def violations_checkNode)
  qed
qed

text \<open>The report lists, node by node in pre-order, what scanning each node records.\<close>

lemma reportViolations_validate:
  "reportViolations (validate reg node) = treeViolations reg None node"
  by (simp add: validate_def Let_def violations_recursiveCheck initEngine_def)

section \<open>The governance engine: fields of the registry that the scan never reads\<close>

lemma propertyCheck_cong:
  "props r' = props r \<Longrightarrow> propertyCheck r' node st = propertyCheck r node st"
  by (simp add: propertyCheck_def)

lemma propertyCheck_names:
  assumes a: "map_option (map fst) (props r') = map_option (map fst) (props r)"
  shows "propertyCheck r' node st = propertyCheck r node st"
proof (cases "props r")
  case None
  with a have "props r' = None" by simp
  with None show ?thesis by (simp add: propertyCheck_def split: option.splits)
next
  case (Some ps)
  with a obtain ps' where p': "props r' = Some ps'" and e: "map fst ps' = map fst ps"
    by (cases "props r'") auto
  have "map toLowerCase (map fst ps') = map toLowerCase (map fst ps)"
    by (simp only: e)
  then have "map (\<lambda>p. toLowerCase (fst p)) ps' = map (\<lambda>p. toLowerCase (fst p)) ps"
    by (simp add: comp_def)
  then show ?thesis
    by (simp add: propertyCheck_def Some p' split: option.splits)
qed

lemma checkNode_cong:
  assumes dom: "\<And>k. (reg' k = None) = (reg k = None)"
      and forb: "\<And>pn lk. forbids reg' pn lk = forbids reg pn lk"
      and prp: "\<And>k r r' nd s. reg k = Some r \<Longrightarrow> reg' k = Some r' \<Longrightarrow>
                   propertyCheck r' nd s = propertyCheck r nd s"
  shows "checkNode reg' p node st = checkNode reg p node st"
proof (cases "reg (nodeLookup (name node))")
  case None
  with dom have "reg' (nodeLookup (name node)) = None" by simp
  with None show ?thesis by (simp add: checkNode_def isComponent_def Let_def)
next
  case (Some r)
  with dom obtain r' where r': "reg' (nodeLookup (name node)) = Some r'"
    by (cases "reg' (nodeLookup (name node))") auto
  show ?thesis
    by (simp add: checkNode_def isComponent_def Some r' forb prp [OF Some r'] Let_def
          split: option.splits)
qed

lemma recursiveCheck_cong:
  assumes "\<And>p node st. checkNode reg' p node st = checkNode reg p node st"
  shows "recursiveCheck reg' p node st = recursiveCheck reg p node st"
  using assms
proof (induction reg p node st rule: recursiveCheck.induct)
  case (1 rg parentNode i n cp ch st)
  note eq = "1.prems"
  show ?case
  proof (cases ch)
    case None
    then show ?thesis by (simp add: eq)
  next
    case (Some cs)
    have "fold (\<lambda>child. recursiveCheck reg' (Some (DesignNode i n cp ch)) child) cs s =
          fold (\<lambda>child. recursiveCheck rg (Some (DesignNode i n cp ch)) child) cs s" for s
      by (rule fold_cong) (use Some "1.IH" eq in auto)
    then show ?thesis using Some by (simp add: Let_def eq)
  qed
qed

lemma checkNode_withCanContain:
  "checkNode (withCanContain g reg) p node st = checkNode reg p node st"
proof (rule checkNode_cong)
  show "(withCanContain g reg k = None) = (reg k = None)" for k
    by (simp add: withCanContain_def)
  show "forbids (withCanContain g reg) pn lk = forbids reg pn lk" for pn lk
    by (simp add: forbids_def withCanContain_def split: option.splits)
  show "propertyCheck r' nd s = propertyCheck r nd s"
    if "reg k = Some r" "withCanContain g reg k = Some r'" for k r r' nd s
    using that by (auto simp: withCanContain_def intro: propertyCheck_cong)
qed

lemma checkNode_withRequired:
  "checkNode (withRequired g reg) p node st = checkNode reg p node st"
proof (rule checkNode_cong)
  show "(withRequired g reg k = None) = (reg k = None)" for k
    by (simp add: withRequired_def)
  show "forbids (withRequired g reg) pn lk = forbids reg pn lk" for pn lk
    by (simp add: forbids_def withRequired_def split: option.splits)
  show "propertyCheck r' nd s = propertyCheck r nd s"
    if "reg k = Some r" "withRequired g reg k = Some r'" for k r r' nd s
  proof (rule propertyCheck_names)
    from that have "r' = r\<lparr>props :=
                 map_option (map (\<lambda>p. (fst p, (snd p)\<lparr>required := g k (fst p) (required (snd p))\<rparr>)))
                   (props r)\<rparr>"
      by (simp add: withRequired_def)
    then show "map_option (map fst) (props r') = map_option (map fst) (props r)"
      by (simp add: option.map_comp comp_def)
  qed
qed

lemma validate_withCanContain:
  "validate (withCanContain g reg) node = validate reg node"
  by (simp add: validate_def
        recursiveCheck_cong [of "withCanContain g reg" reg, OF checkNode_withCanContain])

lemma validate_withRequired:
  "validate (withRequired g reg) node = validate reg node"
  by (simp add: validate_def
        recursiveCheck_cong [of "withRequired g reg" reg, OF checkNode_withRequired])

text \<open>
  Scanning a governed node that has a registry rule, under a parent for which the scan
  finds a rule whose \<open>cannotContain\<close> list has the node's lookup name or \<open>*\<close> in it,
  records one illegal-nesting violation, a CRITICAL one, and after it only MINOR property
  violations. The rule of the parent is the one under \<open>parentLookup\<close> of its name.
\<close>

lemma checkNode_forbidden_child:
  assumes "reg (nodeLookup (name node)) = Some r"
      and "reg (parentLookup (name p)) = Some pr"
      and "composition pr = Some cmps"
      and "cannotContain cmps = Some cc"
      and "nodeLookup (name node) \<in> set cc \<or> ''*'' \<in> set cc"
  shows "violations (checkNode reg (Some p) node st) =
           violations st @ illegalNesting p node #
             map (unknownProperty node) (unknownKeys r node) \<and>
         filter (\<lambda>v. severity v = CRITICAL) (nodeViolations reg (Some p) node) =
           [illegalNesting p node] \<and>
         filter (\<lambda>v. rule v = ''Composition'') (nodeViolations reg (Some p) node) =
           [illegalNesting p node]"
proof -
  have f: "forbids reg (name p) (nodeLookup (name node))"
    using assms by (simp add: forbids_def)
  have v: "violations (checkNode reg (Some p) node s) =
             violations s @ illegalNesting p node #
               map (unknownProperty node) (unknownKeys r node)" for s
    using violations_checkNode_governed [of reg node r "Some p" s, OF assms(1)] f by simp
  have n: "nodeViolations reg (Some p) node =
             illegalNesting p node # map (unknownProperty node) (unknownKeys r node)"
    using v [of initEngine] by (simp add: nodeViolations_def initEngine_def)
  have c: "filter (\<lambda>v. severity v = CRITICAL) (map (unknownProperty node) ks) = []" for ks
    by (induction ks) (simp_all add: unknownProperty_def)
  have d: "filter (\<lambda>v. rule v = ''Composition'') (map (unknownProperty node) ks) = []" for ks
    by (induction ks) (simp_all add: unknownProperty_def)
  show ?thesis
    by (simp add: v n c d) (simp add: illegalNesting_def)
qed

text \<open>
  The Composition violations of a report are the illegal nestings of the tree as the
  composition check finds them: one for every node with a rule, under a parent for which
  the rule under \<open>parentLookup\<close> of the parent's name forbids the node.
\<close>

lemma composition_nodeViolations:
  "filter (\<lambda>v. rule v = ''Composition'') (nodeViolations reg parentNode node) =
     (case parentNode of None \<Rightarrow> []
      | Some p \<Rightarrow>
          if reg (nodeLookup (name node)) \<noteq> None \<and>
             forbids reg (name p) (nodeLookup (name node))
          then [illegalNesting p node] else [])"
proof (cases "reg (nodeLookup (name node))")
  case None
  then show ?thesis
    by (simp add: nodeViolations_def checkNode_def Let_def addViolation_def initEngine_def
          split: option.splits)
next
  case (Some r)
  have d: "filter (\<lambda>v. rule v = ''Composition'') (map (unknownProperty node) ks) = []" for ks
    by (induction ks) (simp_all add: unknownProperty_def)
  show ?thesis
    using violations_checkNode_governed [of reg node r parentNode initEngine, OF Some]
    by (simp add: nodeViolations_def initEngine_def d Some illegalNesting_def
          split: option.splits)
qed

lemma composition_treeViolations:
  "filter (\<lambda>v. rule v = ''Composition'') (treeViolations reg parentNode node) =
     recordedNestings reg parentNode node"
proof (induction reg parentNode node rule: treeViolations.induct)
  case (1 reg parentNode i n cp ch)
  show ?case
  proof (cases ch)
    case None
    then show ?thesis by (simp add: composition_nodeViolations split: option.splits)
  next
    case (Some cs)
    have "filter (\<lambda>v. rule v = ''Composition'')
            (treeViolations reg (Some (DesignNode i n cp (Some cs))) c) =
          recordedNestings reg (Some (DesignNode i n cp (Some cs))) c" if "c \<in> set cs" for c
      using "1.IH" [OF Some that] by (simp add: Some)
    then have "map (\<lambda>c. filter (\<lambda>v. rule v = ''Composition'')
                  (treeViolations reg (Some (DesignNode i n cp (Some cs))) c)) cs =
          map (recordedNestings reg (Some (DesignNode i n cp (Some cs)))) cs"
      by (intro map_cong refl)
    then have m: "concat (map (\<lambda>c. filter (\<lambda>v. rule v = ''Composition'')
                  (treeViolations reg (Some (DesignNode i n cp (Some cs))) c)) cs) =
          concat (map (recordedNestings reg (Some (DesignNode i n cp (Some cs)))) cs)"
      by (simp only:)
    show ?thesis
      by (simp add: Some composition_nodeViolations filter_concat comp_def m
            split: option.splits)
  qed
qed

lemma composition_violations_validate:
  "filter (\<lambda>v. rule v = ''Composition'') (reportViolations (validate reg tree)) =
     recordedNestings reg None tree"
  by (simp add: reportViolations_validate composition_treeViolations)

text \<open>
  Claim C2. Validation does not record the illegal nesting of every governed node whose
  parent's rule forbids it. The Composition violations of a report are those of
  \<open>recordedNestings\<close>, for every registry and tree: the parent is looked up under
  \<open>parentLookup\<close> of its name. In the tree \<open>pageOf outlinedCard\<close> the button
  \<open>Button/Submit\<close> is governed and has the rule of \<open>button\<close>; its parent
  \<open>Card/Outlined\<close> is scanned under the rule of \<open>card\<close>, whose \<open>cannotContain\<close> list
  names \<open>button\<close>. The report of \<open>validate\<close> for this tree has no violation: both
  components are VERIFIED, the score is 100 and the tree is valid. The composition check
  of the button looks the parent up as \<open>card/outlined\<close>, without the split at the slash
  that the node's own lookup has, and finds no rule. With the parent named \<open>Card\<close> the
  same tree gets the one CRITICAL violation (score 50, not valid). The \<open>canContain\<close>
  lists play no part in either report.
\<close>

theorem forbidden_child_of_variant_unreported:
  "filter (\<lambda>v. rule v = ''Composition'') (reportViolations (validate reg tree)) =
     recordedNestings reg None tree \<and>
   isComponent exampleRegistry (name submitButton) \<and>
   nodeLookup (name submitButton) = ''button'' \<and>
   exampleRegistry (nodeLookup (name submitButton)) = Some buttonRule \<and>
   children outlinedCard = Some [submitButton] \<and>
   nodeLookup (name outlinedCard) = ''card'' \<and>
   exampleRegistry (nodeLookup (name outlinedCard)) = Some cardRule \<and>
   Option.bind (composition cardRule) cannotContain = Some [''button''] \<and>
   parentLookup (name outlinedCard) = ''card/outlined'' \<and>
   exampleRegistry (parentLookup (name outlinedCard)) = None \<and>
   reportViolations (validate exampleRegistry (pageOf outlinedCard)) = [] \<and>
   map status (components (validate exampleRegistry (pageOf outlinedCard))) =
     [VERIFIED, VERIFIED] \<and>
   score (validate exampleRegistry (pageOf outlinedCard)) = 100 \<and>
   valid (validate exampleRegistry (pageOf outlinedCard)) \<and>
   reportViolations (validate exampleRegistry (pageOf plainCard)) =
     [illegalNesting plainCard submitButton] \<and>
   map status (components (validate exampleRegistry (pageOf plainCard))) =
     [VERIFIED, VIOLATION] \<and>
   score (validate exampleRegistry (pageOf plainCard)) = 50 \<and>
   \<not> valid (validate exampleRegistry (pageOf plainCard)) \<and>
   reportViolations
     (validate (withCanContain (\<lambda>k c. Some [''button'']) exampleRegistry)
        (pageOf outlinedCard)) = [] \<and>
   reportViolations
     (validate (withCanContain (\<lambda>k c. None) exampleRegistry) (pageOf plainCard)) =
     [illegalNesting plainCard submitButton]"
proof -
  have general:
    "filter (\<lambda>v. rule v = ''Composition'') (reportViolations (validate reg tree)) =
       recordedNestings reg None tree"
    by (rule composition_violations_validate)
  have example:
    "isComponent exampleRegistry (name submitButton) \<and>
     nodeLookup (name submitButton) = ''button'' \<and>
     exampleRegistry (nodeLookup (name submitButton)) = Some buttonRule \<and>
     children outlinedCard = Some [submitButton] \<and>
     nodeLookup (name outlinedCard) = ''card'' \<and>
     exampleRegistry (nodeLookup (name outlinedCard)) = Some cardRule \<and>
     Option.bind (composition cardRule) cannotContain = Some [''button''] \<and>
     parentLookup (name outlinedCard) = ''card/outlined'' \<and>
     exampleRegistry (parentLookup (name outlinedCard)) = None \<and>
     reportViolations (validate exampleRegistry (pageOf outlinedCard)) = [] \<and>
     map status (components (validate exampleRegistry (pageOf outlinedCard))) =
       [VERIFIED, VERIFIED] \<and>
     score (validate exampleRegistry (pageOf outlinedCard)) = 100 \<and>
     valid (validate exampleRegistry (pageOf outlinedCard)) \<and>
     reportViolations (validate exampleRegistry (pageOf plainCard)) =
       [illegalNesting plainCard submitButton] \<and>
     map status (components (validate exampleRegistry (pageOf plainCard))) =
       [VERIFIED, VIOLATION] \<and>
     score (validate exampleRegistry (pageOf plainCard)) = 50 \<and>
     \<not> valid (validate exampleRegistry (pageOf plainCard)) \<and>
     reportViolations
       (validate (withCanContain (\<lambda>k c. Some [''button'']) exampleRegistry)
          (pageOf outlinedCard)) = [] \<and>
     reportViolations
       (validate (withCanContain (\<lambda>k c. None) exampleRegistry) (pageOf plainCard)) =
       [illegalNesting plainCard submitButton]"
    by code_simp
  show ?thesis using general example by (rule conjI)
qed

text \<open>
  Claim C9. What scanning a governed node with a rule records is the illegal-nesting
  violation, if the parent forbids the node, and then one unknown-property violation per
  property key of the node that the rule does not declare: nothing is recorded for a
  declared property that the node omits, required or not. A node without a rule gets no
  property violation. The report does not depend on any \<open>required\<close> flag of the registry.
\<close>

theorem property_violations_unknown_keys_only:
  "(case reg (nodeLookup (name node)) of
      None \<Rightarrow>
        filter (\<lambda>v. rule v = ''Property Validation'') (nodeViolations reg p node) = []
    | Some r \<Rightarrow>
        nodeViolations reg p node =
          (case p of
             None \<Rightarrow> []
           | Some q \<Rightarrow>
               if forbids reg (name q) (nodeLookup (name node))
               then [illegalNesting q node] else []) @
          map (unknownProperty node)
            (case (componentProperties node, props r) of
               (Some ks, Some ps) \<Rightarrow>
                  filter (\<lambda>k. cleanProp k \<notin> set (map (\<lambda>p. toLowerCase (fst p)) ps)) ks
             | _ \<Rightarrow> [])) \<and>
   validate (withRequired g reg) tree = validate reg tree"
proof (cases "reg (nodeLookup (name node))")
  case None
  then show ?thesis
    by (simp add: nodeViolations_def violations_checkNode_unregistered validate_withRequired)
next
  case (Some r)
  show ?thesis
    using violations_checkNode_governed [of reg node r p initEngine, OF Some]
    by (simp add: Some validate_withRequired nodeViolations_def initEngine_def
          unknownKeys_def)
qed

theorem property_violations_unknown_keys_only_witness:
  "nodeViolations exampleRegistry (Some heroNode) plainButton = [] \<and>
   nodeViolations exampleRegistry (Some cardNode) buttonNode =
     [illegalNesting cardNode buttonNode, unknownProperty buttonNode ''size''] \<and>
   reportViolations (validate exampleRegistry heroNode) = [] \<and>
   score (validate exampleRegistry heroNode) = 100 \<and>
   valid (validate exampleRegistry heroNode) \<and>
   validate (withRequired (\<lambda>k n b. False) exampleRegistry) heroNode =
     validate exampleRegistry heroNode"
proof -
  have h1: "exampleRegistry (nodeLookup (name plainButton)) = Some buttonRule"
    by code_simp
  have h2: "componentProperties plainButton = None"
    by (simp add: plainButton_def)
  have h3: "\<not> forbids exampleRegistry (name heroNode) (nodeLookup (name plainButton))"
    by code_simp
  have k1: "exampleRegistry (nodeLookup (name buttonNode)) = Some buttonRule"
    by code_simp
  have k2: "forbids exampleRegistry (name cardNode) (nodeLookup (name buttonNode))"
    by code_simp
  have k3: "(case componentProperties buttonNode of
               None \<Rightarrow> []
             | Some ks \<Rightarrow>
                 (case props buttonRule of
                    None \<Rightarrow> []
                  | Some ps \<Rightarrow>
                      filter (\<lambda>k. cleanProp k \<notin> set (map (\<lambda>p. toLowerCase (fst p)) ps)) ks)) =
            [''size'']"
    by code_simp
  have v: "reportViolations (validate exampleRegistry heroNode) = []"
    by code_simp
  have s: "score (validate exampleRegistry heroNode) = 100"
    by code_simp
  have b: "valid (validate exampleRegistry heroNode)"
    by code_simp
  have A: "nodeViolations exampleRegistry (Some heroNode) plainButton = []"
    using property_violations_unknown_keys_only
            [where reg = exampleRegistry and node = plainButton and p = "Some heroNode"
               and g = "\<lambda>k n b. False" and tree = heroNode]
    by (simp add: h1 h2 h3)
  have B: "nodeViolations exampleRegistry (Some cardNode) buttonNode =
     [illegalNesting cardNode buttonNode, unknownProperty buttonNode ''size'']"
    using property_violations_unknown_keys_only
            [where reg = exampleRegistry and node = buttonNode and p = "Some cardNode"
               and g = "\<lambda>k n b. False" and tree = heroNode]
    by (simp add: k1 k2 k3)
  have C: "validate (withRequired (\<lambda>k n b. False) exampleRegistry) heroNode =
     validate exampleRegistry heroNode"
    using property_violations_unknown_keys_only
            [where reg = exampleRegistry and node = plainButton and p = "Some heroNode"
               and g = "\<lambda>k n b. False" and tree = heroNode]
    by simp
  show ?thesis using A B C v s b by simp
qed

text \<open>
  Claim C4. The lookup name of a parent, in the composition check of its child, is not
  derived as the node's own is: the split at the first slash and the trim are missing.
  For the parent \<open>Card/Primary\<close> the scan of the node itself consults the rule of
  \<open>card\<close>, which forbids \<open>button\<close>, and the composition check of its child consults
  \<open>card/primary\<close>, finds no rule and records nothing.
\<close>

theorem parent_lookup_not_node_lookup:
  "nodeLookup (name variantCard) = ''card'' \<and>
   parentLookup (name variantCard) = ''card/primary'' \<and>
   exampleRegistry (nodeLookup (name variantCard)) = Some cardRule \<and>
   exampleRegistry (parentLookup (name variantCard)) = None \<and>
   children variantCard = Some [plainButton] \<and>
   forbids exampleRegistry ''Card'' (nodeLookup (name plainButton)) \<and>
   \<not> forbids exampleRegistry (name variantCard) (nodeLookup (name plainButton)) \<and>
   reportViolations (validate exampleRegistry variantCard) = []"
  by code_simp

section \<open>Content healing: the shape of a match\<close>

lemma of_char_toLowerChar:
  "(of_char (toLowerChar c) :: nat) =
     (if (65 \<le> (of_char c :: nat) \<and> (of_char c :: nat) \<le> 90) \<or>
         (192 \<le> (of_char c :: nat) \<and> (of_char c :: nat) \<le> 222 \<and> (of_char c :: nat) \<noteq> 215)
      then of_char c + 32 else of_char c)"
  by (auto simp: toLowerChar_def Let_def)

lemma toLowerChar_fixed:
  assumes "(of_char d :: nat) < 65 \<or> (90 < (of_char d :: nat) \<and> (of_char d :: nat) < 97) \<or>
           (122 < (of_char d :: nat) \<and> (of_char d :: nat) < 192)"
  shows "(toLowerChar c = d) = (c = d)"
proof
  assume a: "toLowerChar c = d"
  have "(of_char (toLowerChar c) :: nat) = of_char d" by (simp add: a)
  then have "(of_char c :: nat) = of_char d"
    using assms by (auto simp add: of_char_toLowerChar split: if_splits)
  then show "c = d" by (simp only: of_char_eq_iff)
next
  assume "c = d"
  have "(of_char (toLowerChar d) :: nat) = of_char d"
    using assms by (auto simp add: of_char_toLowerChar)
  then have "toLowerChar d = d" by (simp only: of_char_eq_iff)
  then show "toLowerChar c = d" using \<open>c = d\<close> by simp
qed

lemma lower_lt [simp]: "(toLowerChar c = CHR ''<'') = (c = CHR ''<'')"
  by (rule toLowerChar_fixed) simp_all

lemma lower_gt [simp]: "(toLowerChar c = CHR ''>'') = (c = CHR ''>'')"
  by (rule toLowerChar_fixed) simp_all

lemma lower_slash [simp]: "(toLowerChar c = CHR ''/'') = (c = CHR ''/'')"
  by (rule toLowerChar_fixed) simp_all

lemma lower_fix_lt [simp]: "toLowerChar (CHR ''<'') = CHR ''<''"
  using lower_lt [of "CHR ''<''"] by simp

lemma lower_fix_gt [simp]: "toLowerChar (CHR ''>'') = CHR ''>''"
  using lower_gt [of "CHR ''>''"] by simp

lemma lower_fix_slash [simp]: "toLowerChar (CHR ''/'') = CHR ''/''"
  using lower_slash [of "CHR ''/''"] by simp

lemma lower_fix_brace [simp]: "toLowerChar (CHR ''{'') = CHR ''{''"
  using toLowerChar_fixed [of "CHR ''{''" "CHR ''{''"] by simp

lemma toLowerCase_mem:
  "x \<in> set s \<Longrightarrow> toLowerChar x \<in> set (toLowerCase s)"
  by (simp add: toLowerCase_def)

lemma not_space_lt [simp]: "\<not> isSpace (CHR ''<'')"
  by (simp add: isSpace_def)

lemma not_space_gt [simp]: "\<not> isSpace (CHR ''>'')"
  by (simp add: isSpace_def)

lemma not_space_brace [simp]: "\<not> isSpace (CHR ''{'')"
  by (simp add: isSpace_def)

text \<open>What the opening and the closing tag of a match look like.\<close>

lemma open_tag:
  assumes "toLowerCase b = openTag"
  shows "length b = length openTag" and "CHR ''>'' \<notin> set b"
proof -
  show "length b = length openTag"
    using arg_cong [OF assms, of length] by (simp add: toLowerCase_def)
  show "CHR ''>'' \<notin> set b"
  proof
    assume "CHR ''>'' \<in> set b"
    from toLowerCase_mem [OF this] show False by (simp add: assms openTag_def)
  qed
qed

lemma close_tag:
  assumes "toLowerCase g = closeTag"
  obtains k where "g = CHR ''<'' # CHR ''/'' # k @ [CHR ''>'']" "CHR ''>'' \<notin> set k"
    "CHR ''<'' \<notin> set k" "length g = length closeTag"
proof -
  from assms obtain c0 c1 c2 c3 c4 c5 c6 c7 c8 where
    g: "g = [c0, c1, c2, c3, c4, c5, c6, c7, c8]"
    and l: "toLowerChar c0 = CHR ''<''" "toLowerChar c1 = CHR ''/''"
      "toLowerChar c2 = CHR ''b''" "toLowerChar c3 = CHR ''u''" "toLowerChar c4 = CHR ''t''"
      "toLowerChar c5 = CHR ''t''" "toLowerChar c6 = CHR ''o''" "toLowerChar c7 = CHR ''n''"
      "toLowerChar c8 = CHR ''>''"
    by (auto simp: toLowerCase_def closeTag_def map_eq_Cons_conv)
  have n: "c \<noteq> CHR ''>'' \<and> c \<noteq> CHR ''<''"
    if "toLowerChar c = d" "d \<noteq> CHR ''>''" "d \<noteq> CHR ''<''" for c d
    using that by auto
  have "g = CHR ''<'' # CHR ''/'' # [c2, c3, c4, c5, c6, c7] @ [CHR ''>'']"
    using g l by simp
  moreover have "CHR ''>'' \<notin> set [c2, c3, c4, c5, c6, c7]" "CHR ''<'' \<notin> set [c2, c3, c4, c5, c6, c7]"
    using n [OF l(3)] n [OF l(4)] n [OF l(5)] n [OF l(6)] n [OF l(7)] n [OF l(8)] by auto
  moreover have "length g = length closeTag" using g by (simp add: closeTag_def)
  ultimately show thesis by (rule that)
qed

lemma match_SomeD:
  assumes "matchEmptyButton s = Some (g1, g2, rest)"
  obtains w where "s = g1 @ w @ g2 @ rest" "buttonMatch g1 w g2"
proof -
  let ?n = "length openTag" and ?m = "length closeTag"
  from assms have ci: "toLowerCase (take ?n s) = openTag"
    by (simp add: matchEmptyButton_def startsWithCI_def split: if_splits)
  from assms ci obtain gt r where d: "dropWhile (\<lambda>c. c \<noteq> CHR ''>'') (drop ?n s) = gt # r"
    and c2: "toLowerCase (take ?m (dropWhile isSpace r)) = closeTag"
    and g1: "g1 = take ?n s @ takeWhile (\<lambda>c. c \<noteq> CHR ''>'') (drop ?n s) @ [gt]"
    and g2: "g2 = take ?m (dropWhile isSpace r)"
    and rest: "rest = drop ?m (dropWhile isSpace r)"
    by (auto simp: matchEmptyButton_def startsWithCI_def Let_def split: if_splits list.splits)
  have gt: "gt = CHR ''>''"
    using hd_dropWhile [of "\<lambda>c. c \<noteq> CHR ''>''" "drop ?n s"] d by simp
  have "s = take ?n s @ drop ?n s" by simp
  also have "drop ?n s = takeWhile (\<lambda>c. c \<noteq> CHR ''>'') (drop ?n s) @ gt # r"
    using takeWhile_dropWhile_id [of "\<lambda>c. c \<noteq> CHR ''>''" "drop ?n s"] d by simp
  also have "r = takeWhile isSpace r @ dropWhile isSpace r" by simp
  also have "dropWhile isSpace r = g2 @ rest" by (simp add: g2 rest)
  finally have s: "s = g1 @ takeWhile isSpace r @ g2 @ rest" by (simp add: g1)
  have a: "CHR ''>'' \<notin> set (takeWhile (\<lambda>c. c \<noteq> CHR ''>'') (drop ?n s))"
    by (auto dest: set_takeWhileD)
  have w: "list_all isSpace (takeWhile isSpace r)"
    by (auto simp: list_all_iff dest: set_takeWhileD)
  have "buttonMatch g1 (takeWhile isSpace r) g2"
    unfolding buttonMatch_def using ci a w c2 g1 g2 gt by blast
  with s show thesis by (rule that)
qed

lemma match_SomeI:
  assumes "buttonMatch g1 w g2"
  shows "matchEmptyButton (g1 @ w @ g2 @ rest) = Some (g1, g2, rest)"
proof -
  let ?n = "length openTag" and ?m = "length closeTag"
  from assms obtain b a where g1: "g1 = b @ a @ [CHR ''>'']"
    and b: "toLowerCase b = openTag" and a: "CHR ''>'' \<notin> set a"
    and w: "list_all isSpace w" and g2: "toLowerCase g2 = closeTag"
    by (auto simp: buttonMatch_def)
  from open_tag [OF b] have lb: "length b = ?n" by simp
  from close_tag [OF g2] obtain k where k: "g2 = CHR ''<'' # CHR ''/'' # k @ [CHR ''>'']"
    and lg: "length g2 = ?m" by blast
  let ?s = "g1 @ w @ g2 @ rest"
  have t7: "take ?n ?s = b" and d7: "drop ?n ?s = a @ CHR ''>'' # w @ g2 @ rest"
    using lb by (simp_all add: g1)
  have dw: "dropWhile (\<lambda>c. c \<noteq> CHR ''>'') (a @ CHR ''>'' # w @ g2 @ rest) =
              CHR ''>'' # w @ g2 @ rest"
    using a by (subst dropWhile_append2) auto
  have tw: "takeWhile (\<lambda>c. c \<noteq> CHR ''>'') (a @ CHR ''>'' # w @ g2 @ rest) = a"
    using a by (subst takeWhile_append2) auto
  have ds: "dropWhile isSpace (w @ g2 @ rest) = g2 @ rest"
    using w by (subst dropWhile_append2) (auto simp: list_all_iff k)
  have t9: "take ?m (g2 @ rest) = g2" and d9: "drop ?m (g2 @ rest) = rest"
    using lg by simp_all
  show ?thesis
    unfolding matchEmptyButton_def startsWithCI_def t7 d7 Let_def dw tw
    by (simp add: b g2 g1 ds lg [symmetric])
qed

lemma match_not_lt: "c \<noteq> CHR ''<'' \<Longrightarrow> matchEmptyButton (c # s) = None"
  by (auto simp: matchEmptyButton_def startsWithCI_def toLowerCase_def openTag_def)

lemma match_close_tag:
  assumes "toLowerCase g2 = closeTag"
  shows "matchEmptyButton (g2 @ s) = None"
proof -
  from close_tag [OF assms] obtain k where "g2 = CHR ''<'' # CHR ''/'' # k @ [CHR ''>'']"
    by blast
  then show ?thesis
    by (auto simp: matchEmptyButton_def startsWithCI_def toLowerCase_def openTag_def)
qed

section \<open>Content healing: a healed text has no empty button\<close>

lemma first_occurrence:
  "a \<notin> set h \<Longrightarrow> h @ a # R = x @ a # R' \<Longrightarrow>
     (x = h \<and> R = R') \<or> (\<exists>x'. x = h @ a # x' \<and> R = x' @ a # R')"
proof (induction h arbitrary: x)
  case Nil
  then show ?case by (cases x) auto
next
  case (Cons k h)
  from Cons.prems obtain x'' where x: "x = k # x''"
    by (cases x) auto
  with Cons.prems have "h @ a # R = x'' @ a # R'" by simp
  from Cons.IH [OF _ this] Cons.prems(1) show ?case by (auto simp: x)
qed

text \<open>In a match, a \<open>>\<close> that is not its last character is followed by white space or \<open><\<close>.\<close>

lemma match_shape:
  assumes m: "buttonMatch g1 w g2"
      and e: "g1 @ w @ g2 = x @ CHR ''>'' # c # y"
  shows "isSpace c \<or> c = CHR ''<''"
proof -
  from m obtain b a where g1: "g1 = b @ a @ [CHR ''>'']"
    and b: "toLowerCase b = openTag" and a: "CHR ''>'' \<notin> set a"
    and w: "list_all isSpace w" and g2: "toLowerCase g2 = closeTag"
    by (auto simp: buttonMatch_def)
  from open_tag(2) [OF b] a have h: "CHR ''>'' \<notin> set (b @ a)" by simp
  from close_tag [OF g2] obtain k where k: "g2 = CHR ''<'' # CHR ''/'' # k @ [CHR ''>'']"
    and kn: "CHR ''>'' \<notin> set k" by blast
  have wn: "CHR ''>'' \<notin> set w"
    using w by (auto simp: list_all_iff)
  let ?t = "w @ CHR ''<'' # CHR ''/'' # k"
  have tn: "CHR ''>'' \<notin> set ?t" using wn kn by simp
  have e': "(b @ a) @ CHR ''>'' # (?t @ [CHR ''>'']) = x @ CHR ''>'' # c # y"
    using e by (simp add: g1 k)
  from first_occurrence [OF h e'] show ?thesis
  proof
    assume "x = b @ a \<and> ?t @ [CHR ''>''] = c # y"
    then have "c = hd (w @ [CHR ''<''])"
      by (cases w) auto
    then show ?thesis using w by (cases w) (auto simp: list_all_iff)
  next
    assume "\<exists>x'. x = (b @ a) @ CHR ''>'' # x' \<and> ?t @ [CHR ''>''] = x' @ CHR ''>'' # c # y"
    then obtain x' where "?t @ CHR ''>'' # [] = x' @ CHR ''>'' # c # y" by auto
    from first_occurrence [OF tn this] show ?thesis by auto
  qed
qed

text \<open>Healing the text after a prefix creates no match that starts in the prefix.\<close>

lemma heal_no_new_match:
  "matchEmptyButton (p @ healButtons v t) \<noteq> None \<Longrightarrow> matchEmptyButton (p @ t) \<noteq> None"
proof (induction v t arbitrary: p rule: healButtons.induct)
  case (1 v)
  then show ?case by simp
next
  case (2 v c cs)
  show ?case
  proof (cases "matchEmptyButton (c # cs)")
    case None
    with "2.prems" have "matchEmptyButton ((p @ [c]) @ healButtons v cs) \<noteq> None" by simp
    from "2.IH"(1) [OF None this] show ?thesis by simp
  next
    case (Some x)
    obtain g1 g2 rest where x: "x = (g1, g2, rest)" by (cases x) auto
    from match_SomeD [OF Some [unfolded x]] obtain w where
      s: "c # cs = g1 @ w @ g2 @ rest" and bm: "buttonMatch g1 w g2" by blast
    let ?X = "CHR ''{'' # ''{ '' @ v @ '' }}'' @ g2 @ healButtons v rest"
    have heal: "healButtons v (c # cs) = g1 @ ?X"
      by (simp add: Some x)
    from "2.prems" obtain m1 m2 r' where
      mm: "matchEmptyButton (p @ g1 @ ?X) = Some (m1, m2, r')"
      unfolding heal by (cases "matchEmptyButton (p @ g1 @ ?X)") auto
    from match_SomeD [OF mm] obtain w' where
      e: "p @ g1 @ ?X = m1 @ w' @ m2 @ r'" and bm': "buttonMatch m1 w' m2" by blast
    from bm obtain g1' where g1: "g1 = g1' @ [CHR ''>'']"
      by (auto simp: buttonMatch_def)
    have "(p @ g1) @ ?X = (m1 @ w' @ m2) @ r'" using e by simp
    then have "\<exists>us. p @ g1 = (m1 @ w' @ m2) @ us \<and> us @ ?X = r' \<or>
                   (p @ g1) @ us = m1 @ w' @ m2 \<and> ?X = us @ r'"
      by (simp only: append_eq_append_conv2)
    then obtain us where
      d: "p @ g1 = (m1 @ w' @ m2) @ us \<or> ((p @ g1) @ us = m1 @ w' @ m2 \<and> ?X = us @ r')"
      by blast
    have "(\<exists>us. p @ g1 = (m1 @ w' @ m2) @ us) \<or>
          (\<exists>us. us \<noteq> [] \<and> (p @ g1) @ us = m1 @ w' @ m2 \<and> ?X = us @ r')"
    proof (cases "us = []")
      case True
      with d have "p @ g1 = (m1 @ w' @ m2) @ []" by auto
      then show ?thesis by blast
    next
      case False
      with d show ?thesis by blast
    qed
    then consider us where "p @ g1 = (m1 @ w' @ m2) @ us"
      | us where "us \<noteq> []" "(p @ g1) @ us = m1 @ w' @ m2" "?X = us @ r'"
      by blast
    then show ?thesis
    proof cases
      case 1
      have "p @ c # cs = (p @ g1) @ w @ g2 @ rest" by (simp add: s)
      also have "\<dots> = ((m1 @ w' @ m2) @ us) @ w @ g2 @ rest" by (simp only: 1)
      finally have "p @ c # cs = m1 @ w' @ m2 @ (us @ w @ g2 @ rest)" by simp
      then show ?thesis using match_SomeI [OF bm'] by simp
    next
      case 2
      then obtain us' where "us = CHR ''{'' # us'" by (cases us) auto
      with 2 have "m1 @ w' @ m2 = (p @ g1') @ CHR ''>'' # CHR ''{'' # us'"
        by (simp add: g1)
      from match_shape [OF bm' this] show ?thesis by simp
    qed
  qed
qed

lemma hasEmptyButton_skip:
  "CHR ''<'' \<notin> set xs \<Longrightarrow> hasEmptyButton (xs @ s) = hasEmptyButton s"
  by (induction xs) (auto simp: match_not_lt)

lemma match_open_then_brace:
  assumes "CHR ''>'' \<notin> set k"
  shows "matchEmptyButton (k @ CHR ''>'' # CHR ''{'' # Z) = None"
proof (rule ccontr)
  assume "matchEmptyButton (k @ CHR ''>'' # CHR ''{'' # Z) \<noteq> None"
  then obtain m1 m2 r' where
    "matchEmptyButton (k @ CHR ''>'' # CHR ''{'' # Z) = Some (m1, m2, r')" by auto
  from match_SomeD [OF this] obtain w' where
    e: "k @ CHR ''>'' # CHR ''{'' # Z = m1 @ w' @ m2 @ r'" and bm: "buttonMatch m1 w' m2"
    by blast
  from bm obtain b a where m1: "m1 = b @ a @ [CHR ''>'']"
    and b: "toLowerCase b = openTag" and a: "CHR ''>'' \<notin> set a"
    and m2: "toLowerCase m2 = closeTag"
    and w': "list_all isSpace w'"
    by (auto simp: buttonMatch_def)
  from close_tag [OF m2] obtain q where q: "m2 = CHR ''<'' # CHR ''/'' # q @ [CHR ''>'']"
    by blast
  have "CHR ''>'' \<notin> set (b @ a)" using open_tag(2) [OF b] a by simp
  moreover have "(b @ a) @ CHR ''>'' # (w' @ m2 @ r') = k @ CHR ''>'' # (CHR ''{'' # Z)"
    using e by (simp add: m1)
  ultimately have "(k = b @ a \<and> w' @ m2 @ r' = CHR ''{'' # Z) \<or>
      (\<exists>x'. k = (b @ a) @ CHR ''>'' # x' \<and> w' @ m2 @ r' = x' @ CHR ''>'' # CHR ''{'' # Z)"
    by (rule first_occurrence)
  then show False
  proof
    assume "k = b @ a \<and> w' @ m2 @ r' = CHR ''{'' # Z"
    then show False using w' by (cases w') (auto simp: q list_all_iff)
  next
    assume "\<exists>x'. k = (b @ a) @ CHR ''>'' # x' \<and> w' @ m2 @ r' = x' @ CHR ''>'' # CHR ''{'' # Z"
    then show False using assms by auto
  qed
qed

lemma hasEmptyButton_open:
  "CHR ''>'' \<notin> set h \<Longrightarrow>
     hasEmptyButton (h @ CHR ''>'' # CHR ''{'' # Z) = hasEmptyButton Z"
proof (induction h)
  case Nil
  then show ?case by (simp add: match_not_lt)
next
  case (Cons c h)
  then have "matchEmptyButton ((c # h) @ CHR ''>'' # CHR ''{'' # Z) = None"
    by (intro match_open_then_brace) simp
  with Cons show ?case by simp
qed

lemma hasEmptyButton_close:
  assumes "toLowerCase g2 = closeTag"
  shows "hasEmptyButton (g2 @ s) = hasEmptyButton s"
proof -
  from close_tag [OF assms] obtain k where k: "g2 = CHR ''<'' # CHR ''/'' # k @ [CHR ''>'']"
    and kl: "CHR ''<'' \<notin> set k" by blast
  have "hasEmptyButton (g2 @ s) = hasEmptyButton ((CHR ''/'' # k @ [CHR ''>'']) @ s)"
    using match_close_tag [OF assms, of s] by (simp add: k)
  also have "\<dots> = hasEmptyButton s"
    using kl by (intro hasEmptyButton_skip) simp
  finally show ?thesis .
qed

lemma healButtons_no_match:
  "CHR ''<'' \<notin> set v \<Longrightarrow> \<not> hasEmptyButton (healButtons v s)"
proof (induction v s rule: healButtons.induct)
  case (1 v)
  then show ?case by simp
next
  case (2 v c cs)
  show ?case
  proof (cases "matchEmptyButton (c # cs)")
    case None
    have "matchEmptyButton (c # healButtons v cs) = None"
    proof (rule ccontr)
      assume "matchEmptyButton (c # healButtons v cs) \<noteq> None"
      then have "matchEmptyButton ([c] @ healButtons v cs) \<noteq> None" by simp
      from heal_no_new_match [OF this] None show False by simp
    qed
    with "2.IH"(1) [OF None "2.prems"] None show ?thesis by simp
  next
    case (Some x)
    obtain g1 g2 rest where x: "x = (g1, g2, rest)" by (cases x) auto
    from match_SomeD [OF Some [unfolded x]] obtain w where bm: "buttonMatch g1 w g2" by blast
    then obtain b a where g1: "g1 = (b @ a) @ [CHR ''>'']"
      and b: "toLowerCase b = openTag" and a: "CHR ''>'' \<notin> set a"
      and g2: "toLowerCase g2 = closeTag"
      by (auto simp: buttonMatch_def)
    have h: "CHR ''>'' \<notin> set (b @ a)" using open_tag(2) [OF b] a by simp
    have "healButtons v (c # cs) =
            (b @ a) @ CHR ''>'' # CHR ''{'' # ((''{ '' @ v @ '' }}'') @ g2 @ healButtons v rest)"
      by (simp add: Some x g1)
    then have "hasEmptyButton (healButtons v (c # cs)) =
                 hasEmptyButton ((''{ '' @ v @ '' }}'') @ g2 @ healButtons v rest)"
      using hasEmptyButton_open [OF h] by simp
    also have "\<dots> = hasEmptyButton (g2 @ healButtons v rest)"
      using "2.prems" by (intro hasEmptyButton_skip) simp
    also have "\<dots> = hasEmptyButton (healButtons v rest)"
      by (rule hasEmptyButton_close [OF g2])
    finally show ?thesis
      using "2.IH"(2) [OF Some x [symmetric] refl "2.prems"] by simp
  qed
qed

lemma bindingVar_no_lt: "CHR ''<'' \<notin> set (bindingVar inferredInputs)"
proof -
  have n: "CHR ''<'' \<notin> set nm" if "toLowerCase nm \<in> set textNames" for nm
  proof
    assume "CHR ''<'' \<in> set nm"
    from toLowerCase_mem [OF this] that show False
      by (auto simp: textNames_def)
  qed
  show ?thesis
    by (auto simp: bindingVar_def Let_def find_Some_iff dest!: n split: option.splits)
qed

lemma healEmptyTags_no_match: "\<not> hasEmptyButton (healEmptyTags markup inferredInputs)"
  by (simp add: healEmptyTags_def healButtons_no_match bindingVar_no_lt)

text \<open>
  Claim C8. Content healing is idempotent: for every markup and every inferred-input
  list, healing the healed markup again returns it unchanged. The markup
  \<open><button class="btn"></button>\<close> with the one inferred input \<open>label\<close> heals to
  \<open><button class="btn">{{ label }}</button>\<close>, which has no empty button left, so the
  second run injects nothing.
\<close>

theorem content_healing_idempotent:
  "healEmptyTags (healEmptyTags markup inferredInputs) inferredInputs =
     healEmptyTags markup inferredInputs \<and>
   healEmptyTags emptyButtonMarkup (Some [labelInput]) = healedButtonMarkup \<and>
   \<not> hasEmptyButton healedButtonMarkup \<and>
   healEmptyTags healedButtonMarkup (Some [labelInput]) = healedButtonMarkup"
proof -
  have "healEmptyTags (healEmptyTags markup inferredInputs) inferredInputs =
          healEmptyTags markup inferredInputs"
    using healEmptyTags_no_match [of markup inferredInputs]
    by (simp add: healEmptyTags_def)
  moreover have "healEmptyTags emptyButtonMarkup (Some [labelInput]) = healedButtonMarkup"
    by code_simp
  moreover have "\<not> hasEmptyButton healedButtonMarkup"
    by code_simp
  moreover have "healEmptyTags healedButtonMarkup (Some [labelInput]) = healedButtonMarkup"
    by code_simp
  ultimately show ?thesis by blast
qed

theorem content_healing_idempotent_witness:
  "healEmptyTags (healEmptyTags mixedMarkup None) None = healEmptyTags mixedMarkup None \<and>
   healEmptyTags mixedMarkup None =
     ''<BUTTON <button id=1>{{ label }}</Button> <button>a</button><button>{{ label }}</button>''"
proof -
  have "healEmptyTags mixedMarkup None =
     ''<BUTTON <button id=1>{{ label }}</Button> <button>a</button><button>{{ label }}</button>''"
    by code_simp
  then show ?thesis
    using content_healing_idempotent [of mixedMarkup None] by simp
qed

section \<open>Selector normalization\<close>

lemma firstClassDef_allClassDefs:
  "firstClassDef b s = (case allClassDefs b s of [] \<Rightarrow> None | c # _ \<Rightarrow> Some c)"
  by (induction b s rule: firstClassDef.induct) (auto split: option.splits)

text \<open>
  Claim C5, as amended. Selector normalization renames a class exactly when the markup
  references \<open>btn\<close> (contains \<open>class="btn\<close> or \<open>class='btn\<close>), the style sheet contains
  none of \<open>.btn {\<close>, \<open>.btn:\<close> and \<open>.btn,\<close>, and the first class rule that starts a line of
  the style sheet is not \<open>btn\<close>; then every occurrence of a dot followed by that first
  class name becomes \<open>.btn\<close>, however many other class rules the style sheet has.
\<close>

theorem normalizeSelectors_renames_first:
  \<open>normalizeSelectors markup sheet =
     (if (includesStr markup ''class="btn'' \<or> includesStr markup ''class='btn'') \<and>
         \<not> (includesStr sheet ''.btn {'' \<or> includesStr sheet ''.btn:'' \<or>
            includesStr sheet ''.btn,'')
      then (case topLevelClasses sheet of
              [] \<Rightarrow> sheet
            | c # others \<Rightarrow>
                if c = ''btn'' then sheet else replaceAllStr sheet (CHR ''.'' # c) ''.btn'')
      else sheet)\<close>
  by (simp add: normalizeSelectors_def topLevelClasses_def firstClassDef_allClassDefs
        split: list.splits)

theorem normalizeSelectors_renames_first_witness:
  "topLevelClasses oneClassSheet = [''my-button''] \<and>
   normalizeSelectors btnMarkup oneClassSheet =
     '':host { display: block; }'' @ [CHR 0x0A] @
     ''.btn { color: red; }'' @ [CHR 0x0A] @ ''.btn:hover { color: blue; }''"
proof -
  have u: "includesStr btnMarkup (''class='' @ [CHR 0x22] @ ''btn'')" by code_simp
  have d: "\<not> includesStr oneClassSheet ''.btn {''" "\<not> includesStr oneClassSheet ''.btn:''"
    "\<not> includesStr oneClassSheet ''.btn,''" by code_simp+
  have t: "topLevelClasses oneClassSheet = [''my-button'']" by code_simp
  have r: "replaceAllStr oneClassSheet ''.my-button'' ''.btn'' =
     '':host { display: block; }'' @ [CHR 0x0A] @
     ''.btn { color: red; }'' @ [CHR 0x0A] @ ''.btn:hover { color: blue; }''"
    by code_simp
  have n: "normalizeSelectors btnMarkup oneClassSheet =
            replaceAllStr oneClassSheet ''.my-button'' ''.btn''"
    unfolding normalizeSelectors_renames_first [of btnMarkup oneClassSheet] t using u d by simp
  show ?thesis
    unfolding n r t by simp
qed

text \<open>
  Claim C5, as stated, fails: a style sheet with two top-level classes other than \<open>btn\<close>
  has its first one renamed.
\<close>

theorem normalizeSelectors_two_classes:
  "topLevelClasses twoClassSheet = [''primary-button'', ''secondary''] \<and>
   normalizeSelectors btnMarkup twoClassSheet =
     ''.btn { color: red; }'' @ [CHR 0x0A] @ ''.secondary { color: blue; }'' \<and>
   normalizeSelectors btnMarkup twoClassSheet \<noteq> twoClassSheet"
  by code_simp

section \<open>Structural healing: texts, first matches and templates\<close>

lemma startsWith_append: "startsWith (p @ b) p"
  by (simp add: startsWith_def)

lemma startsWithD: "startsWith s p \<Longrightarrow> s = p @ drop (length p) s"
proof -
  assume "startsWith s p"
  then have "take (length p) s = p" by (simp add: startsWith_def)
  then have "take (length p) s @ drop (length p) s = p @ drop (length p) s" by simp
  then show ?thesis by (simp only: append_take_drop_id)
qed

lemma includesStr_append: "includesStr (a @ p @ b) p"
proof (induction a)
  case Nil
  show ?case
  proof (cases "p @ b")
    case Nil
    then show ?thesis by simp
  next
    case (Cons x xs)
    then have "startsWith (x # xs) p" using startsWith_append [of p b] by simp
    then show ?thesis using Cons by simp
  qed
next
  case (Cons x a)
  then show ?case by simp
qed

lemma includesStrD: "includesStr s p \<Longrightarrow> \<exists>a b. s = a @ p @ b"
proof (induction s)
  case Nil
  then show ?case by simp
next
  case (Cons c cs)
  show ?case
  proof (cases "startsWith (c # cs) p")
    case True
    from startsWithD [OF this] have "c # cs = [] @ p @ drop (length p) (c # cs)" by simp
    then show ?thesis by blast
  next
    case False
    with Cons.prems have "includesStr cs p" by simp
    from Cons.IH [OF this] obtain a b where "cs = a @ p @ b" by blast
    then have "c # cs = (c # a) @ p @ b" by simp
    then show ?thesis by blast
  qed
qed

lemma includesStr_iff: "includesStr s p = (\<exists>a b. s = a @ p @ b)"
  using includesStrD includesStr_append by blast






lemma expandTemplate_Cons:
  "CHR ''$'' \<noteq> c \<Longrightarrow>
     expandTemplate caps pre mt post (c # t) = c # expandTemplate caps pre mt post t"
  by (cases t) auto

lemma expandTemplate_literal:
  "CHR ''$'' \<notin> set l \<Longrightarrow>
     expandTemplate caps pre mt post (l @ t) = l @ expandTemplate caps pre mt post t"
  by (induction l) (simp_all add: expandTemplate_Cons)




section \<open>Content healing: the replacement template\<close>

text \<open>
  The binding variable has no \<open>$\<close>, so the template \<open>$1{{ v }}$2\<close> of the source expands
  to the first group, the binding and the second group, which is what \<open>healButtons\<close>
  inserts.
\<close>

lemma lower_dollar: "toLowerChar (CHR ''$'') = CHR ''$''"
  by code_simp

lemma bindingVar_no_dollar: "CHR ''$'' \<notin> set (bindingVar inferredInputs)"
proof -
  have n: "CHR ''$'' \<notin> set nm" if "toLowerCase nm \<in> set textNames" for nm
  proof
    assume "CHR ''$'' \<in> set nm"
    from toLowerCase_mem [OF this] that show False
      by (auto simp: textNames_def lower_dollar)
  qed
  show ?thesis
    by (auto simp: bindingVar_def Let_def find_Some_iff dest!: n split: option.splits)
qed

lemma button_template:
  "expandTemplate [g1, g2] pre mt post
     (''$1{{ '' @ bindingVar inferredInputs @ '' }}$2'') =
   g1 @ ''{{ '' @ bindingVar inferredInputs @ '' }}'' @ g2"
proof -
  let ?v = "bindingVar inferredInputs"
  have a: "expandTemplate [g1, g2] pre mt post (CHR ''$'' # CHR ''1'' # CHR ''{'' # t) =
             g1 @ expandTemplate [g1, g2] pre mt post (CHR ''{'' # t)" for t
    by (simp add: isDigit_def digitVal_def)
  have b: "expandTemplate [g1, g2] pre mt post (''{{ '' @ ?v @ '' }}'' @ ''$2'') =
             (''{{ '' @ ?v @ '' }}'') @ expandTemplate [g1, g2] pre mt post ''$2''"
    using expandTemplate_literal [of "''{{ '' @ ?v @ '' }}''" "[g1, g2]" pre mt post "''$2''"]
      bindingVar_no_dollar [of inferredInputs]
    by simp
  have c: "expandTemplate [g1, g2] pre mt post ''$2'' = g2"
    by (simp add: isDigit_def digitVal_def)
  have "expandTemplate [g1, g2] pre mt post (''$1{{ '' @ ?v @ '' }}$2'') =
          g1 @ expandTemplate [g1, g2] pre mt post (''{{ '' @ ?v @ '' }}$2'')"
    by (simp only: append_Cons append_Nil a)
  also have "''{{ '' @ ?v @ '' }}$2'' = (''{{ '' @ ?v @ '' }}'') @ ''$2''"
    by simp
  also have "expandTemplate [g1, g2] pre mt post ((''{{ '' @ ?v @ '' }}'') @ ''$2'') =
               (''{{ '' @ ?v @ '' }}'') @ g2"
    using b c by simp
  finally show ?thesis by simp
qed

section \<open>Structural healing: the import step\<close>















section \<open>Structural healing: the class header\<close>












section \<open>Structural healing: the stage\<close>




section \<open>The pipeline: stages\<close>

lemma story_extractStory_failed:
  "extractCodeBlock sg response ''typescript'' (nm @ ''.stories'') = Inl e \<Longrightarrow>
     extractStory sg response nm files = files"
  by (simp add: extractStory_def)

lemma incomplete_validate:
  "incomplete files \<Longrightarrow> errors (validateExtractedFiles files) \<noteq> []"
  by (auto simp: incomplete_def missingOrEmpty_def validateExtractedFiles_def requiredFile_def
        split: option.splits)

lemma incomplete_validated [simp]:
  "incomplete (validateExtractedFiles files) = incomplete files"
  by (simp add: incomplete_def validateExtractedFiles_def)

lemma validate_fields [simp]:
  "typescript (validateExtractedFiles files) = typescript files"
  "html (validateExtractedFiles files) = html files"
  "scss (validateExtractedFiles files) = scss files"
  "story (validateExtractedFiles files) = story files"
  by (simp_all add: validateExtractedFiles_def)

lemma no_gatekeeper_error:
  assumes "errors files = []"
  shows "''Gatekeeper error: '' @ m \<notin> set (errors (validateExtractedFiles files))"
  using assms
  by (auto simp: validateExtractedFiles_def requiredFile_def validateTypeScriptComponent_def
        validateHtmlTemplate_def split: option.splits if_splits)

text \<open>The stages before the final validation keep the three extracted artifacts and the
  error list, and leave the story as the extraction left it.\<close>

lemma ready_stages:
  assumes "ready files"
  shows "ready (syntaxRepair sg nm files)" "ready (sanitizeFrameworkCode sg files)"
    "ready (visualGatekeeper sg files)" "ready (normalizeStage files)"
    "ready (contentStage ins files)" "ready (structuralStage ins files)"
    "story files = None \<Longrightarrow> ready (extractStory sg response nm files)"
  using assms
  by (auto simp: ready_def syntaxRepair_def sanitizeFrameworkCode_def visualGatekeeper_def
        normalizeStage_def contentStage_def structuralStage_def extractStory_def
        split: option.splits sum.splits)

lemma story_stages [simp]:
  "story (syntaxRepair sg nm files) = story files"
  "story (sanitizeFrameworkCode sg files) = story files"
  "story (visualGatekeeper sg files) = story files"
  "story (normalizeStage files) = story files"
  "story (contentStage ins files) = story files"
  "story (structuralStage ins files) = story files"
  by (auto simp: syntaxRepair_def sanitizeFrameworkCode_def visualGatekeeper_def
        normalizeStage_def contentStage_def structuralStage_def split: option.splits)

lemma storyStage_regenerates:
  assumes "ready files" "story files = None"
  shows "\<exists>ts. typescript (storyStage sg nm ins files) = Some ts \<and>
              story (storyStage sg nm ins files) = Some (generatedStory sg (content ts) nm ins)"
    and "ready (storyStage sg nm ins files)"
  using assms
  by (auto simp: storyStage_def ready_def validateAndHealStory_def)

section \<open>The pipeline: extraction failures\<close>

lemma healStages_story:
  assumes f: "ready files" "story files = None"
      and s: "extractCodeBlock sg response ''typescript'' (nm @ ''.stories'') = Inl e"
  shows "\<exists>ts. typescript (healStages sg response nm ins files) = Some ts \<and>
              story (healStages sg response nm ins files) =
                Some (generatedStory sg (content ts) nm ins)"
    and "html (healStages sg response nm ins files) \<noteq> None"
    and "scss (healStages sg response nm ins files) \<noteq> None"
    and "''Gatekeeper error: '' @ m \<notin> set (errors (healStages sg response nm ins files))"
proof -
  let ?f1 = "extractStory sg response nm (syntaxRepair sg nm files)"
  let ?f2 = "structuralStage ins (contentStage ins (normalizeStage
               (visualGatekeeper sg (sanitizeFrameworkCode sg ?f1))))"
  have e1: "?f1 = syntaxRepair sg nm files"
    by (rule story_extractStory_failed [OF s])
  have r1: "ready ?f1" unfolding e1 by (rule ready_stages(1) [OF f(1)])
  have s1: "story ?f1 = None" unfolding e1 by (simp add: f(2))
  have r2: "ready ?f2"
    by (intro ready_stages(2-6) r1)
  have s2: "story ?f2 = None" by (simp add: s1)
  have h: "healStages sg response nm ins files =
             validateExtractedFiles (storyStage sg nm ins ?f2)"
    by (simp add: healStages_def)
  from storyStage_regenerates [OF r2 s2, of sg nm ins]
  show "\<exists>ts. typescript (healStages sg response nm ins files) = Some ts \<and>
              story (healStages sg response nm ins files) =
                Some (generatedStory sg (content ts) nm ins)"
    unfolding h by simp
  from storyStage_regenerates(2) [OF r2 s2, of sg nm ins]
  have r3: "ready (storyStage sg nm ins ?f2)" .
  then show "html (healStages sg response nm ins files) \<noteq> None"
    and "scss (healStages sg response nm ins files) \<noteq> None"
    unfolding h by (simp_all add: ready_def)
  from r3 have "errors (storyStage sg nm ins ?f2) = []" by (simp add: ready_def)
  from no_gatekeeper_error [OF this]
  show "''Gatekeeper error: '' @ m \<notin> set (errors (healStages sg response nm ins files))"
    unfolding h .
qed

lemma parse_incomplete:
  "incomplete (parseGeminiResponse sg response nm ins) \<Longrightarrow>
     errors (parseGeminiResponse sg response nm ins) \<noteq> []"
  using incomplete_validate
  by (auto simp: parseGeminiResponse_def gatekeeperError_def healStages_def
        split: sum.splits)

text \<open>
  Claim C3. When the structural, the markup or the style block cannot be extracted, the
  remaining stages are skipped: the bundle holds exactly the artifacts extracted before
  the failure and the error list holds one entry, the failure's message. When only the
  story cannot be extracted, nothing is aborted: the three artifacts stay, the story is
  regenerated from the healed structural artifact and no gatekeeper error is recorded.
  Whenever one of the four artifacts of the returned bundle is missing or has empty
  content, the error list is not empty.
\<close>

theorem extraction_failure_is_explicit:
  "(let r = parseGeminiResponse sg response nm ins in
    (extractCodeBlock sg response ''typescript'' nm = Inl e \<longrightarrow>
       r = \<lparr>typescript = None, html = None, scss = None, story = None,
            errors = [''Gatekeeper error: '' @ e]\<rparr>) \<and>
    (extractCodeBlock sg response ''typescript'' nm = Inr t \<and>
     extractCodeBlock sg response ''html'' nm = Inl e \<longrightarrow>
       r = \<lparr>typescript = Some t, html = None, scss = None, story = None,
            errors = [''Gatekeeper error: '' @ e]\<rparr>) \<and>
    (extractCodeBlock sg response ''typescript'' nm = Inr t \<and>
     extractCodeBlock sg response ''html'' nm = Inr h \<and>
     extractCodeBlock sg response ''scss'' nm = Inl e \<longrightarrow>
       r = \<lparr>typescript = Some t, html = Some h, scss = None, story = None,
            errors = [''Gatekeeper error: '' @ e]\<rparr>) \<and>
    (extractCodeBlock sg response ''typescript'' nm = Inr t \<and>
     extractCodeBlock sg response ''html'' nm = Inr h \<and>
     extractCodeBlock sg response ''scss'' nm = Inr s \<and>
     extractCodeBlock sg response ''typescript'' (nm @ ''.stories'') = Inl e \<longrightarrow>
       (\<exists>ts. typescript r = Some ts \<and>
             story r = Some (generatedStory sg (content ts) nm ins)) \<and>
       html r \<noteq> None \<and> scss r \<noteq> None \<and>
       (\<forall>m. ''Gatekeeper error: '' @ m \<notin> set (errors r))) \<and>
    (incomplete r \<longrightarrow> errors r \<noteq> []))"
proof -
  have d: "\<exists>ts. typescript (parseGeminiResponse sg response nm ins) = Some ts \<and>
             story (parseGeminiResponse sg response nm ins) =
               Some (generatedStory sg (content ts) nm ins)"
      "html (parseGeminiResponse sg response nm ins) \<noteq> None"
      "scss (parseGeminiResponse sg response nm ins) \<noteq> None"
      "\<forall>m. ''Gatekeeper error: '' @ m \<notin> set (errors (parseGeminiResponse sg response nm ins))"
    if x: "extractCodeBlock sg response ''typescript'' nm = Inr t"
      "extractCodeBlock sg response ''html'' nm = Inr h"
      "extractCodeBlock sg response ''scss'' nm = Inr s"
      "extractCodeBlock sg response ''typescript'' (nm @ ''.stories'') = Inl e"
  proof -
    let ?f = "emptyFiles\<lparr>typescript := Some t, html := Some h, scss := Some s\<rparr>"
    have p: "parseGeminiResponse sg response nm ins = healStages sg response nm ins ?f"
      by (simp add: parseGeminiResponse_def x)
    have r: "ready ?f" and n: "story ?f = None"
      by (simp_all add: ready_def emptyFiles_def)
    show "\<exists>ts. typescript (parseGeminiResponse sg response nm ins) = Some ts \<and>
             story (parseGeminiResponse sg response nm ins) =
               Some (generatedStory sg (content ts) nm ins)"
      unfolding p by (rule healStages_story(1) [OF r n x(4)])
    show "html (parseGeminiResponse sg response nm ins) \<noteq> None"
      unfolding p by (rule healStages_story(2) [OF r n x(4)])
    show "scss (parseGeminiResponse sg response nm ins) \<noteq> None"
      unfolding p by (rule healStages_story(3) [OF r n x(4)])
    show "\<forall>m. ''Gatekeeper error: '' @ m \<notin> set (errors (parseGeminiResponse sg response nm ins))"
      unfolding p using healStages_story(4) [OF r n x(4)] by blast
  qed
  show ?thesis
    unfolding Let_def
  proof (intro conjI impI)
    assume "incomplete (parseGeminiResponse sg response nm ins)"
    then show "errors (parseGeminiResponse sg response nm ins) \<noteq> []"
      by (rule parse_incomplete)
  qed (use d in \<open>auto simp: parseGeminiResponse_def gatekeeperError_def emptyFiles_def\<close>)
qed

theorem extraction_failure_is_explicit_witness:
  "parseGeminiResponse (exampleStages [(''html'', ''btn'')]) exampleResponse ''btn'' None =
     \<lparr>typescript = Some \<lparr>fileName = ''btn.component.typescript'', content = exampleResponse,
                          language = ''typescript'', artifactSize = length exampleResponse\<rparr>,
      html = None, scss = None, story = None,
      errors = [''Gatekeeper error: No html code block found'']\<rparr> \<and>
   story (parseGeminiResponse (exampleStages [(''typescript'', ''btn.stories'')])
            exampleResponse ''btn'' None) =
     Some \<lparr>fileName = ''btn.stories.ts'', content = ''export default meta;'',
           language = ''typescript'', artifactSize = 20\<rparr> \<and>
   errors (parseGeminiResponse (exampleStages [(''typescript'', ''btn.stories'')])
             exampleResponse ''btn'' None) \<noteq> [] \<and>
   incomplete (parseGeminiResponse (exampleStages [(''html'', ''btn'')])
                 exampleResponse ''btn'' None)"
proof -
  let ?t = "\<lparr>fileName = ''btn.component.typescript'', content = exampleResponse,
             language = ''typescript'', artifactSize = length exampleResponse\<rparr>"
  let ?h = "\<lparr>fileName = ''btn.component.html'', content = exampleResponse,
             language = ''html'', artifactSize = length exampleResponse\<rparr>"
  let ?s = "\<lparr>fileName = ''btn.component.scss'', content = exampleResponse,
             language = ''scss'', artifactSize = length exampleResponse\<rparr>"
  let ?A = "exampleStages [(''html'', ''btn'')]"
  let ?B = "exampleStages [(''typescript'', ''btn.stories'')]"
  have a1: "extractCodeBlock ?A exampleResponse ''typescript'' ''btn'' = Inr ?t"
    by code_simp
  have a2: "extractCodeBlock ?A exampleResponse ''html'' ''btn'' =
              Inl ''No html code block found''"
    by code_simp
  have b1: "extractCodeBlock ?B exampleResponse ''typescript'' ''btn'' = Inr ?t"
    by code_simp
  have b2: "extractCodeBlock ?B exampleResponse ''html'' ''btn'' = Inr ?h"
    by code_simp
  have b3: "extractCodeBlock ?B exampleResponse ''scss'' ''btn'' = Inr ?s"
    by code_simp
  have b4: "extractCodeBlock ?B exampleResponse ''typescript'' (''btn'' @ ''.stories'') =
              Inl ''No typescript code block found''"
    by code_simp
  have g: "generatedStory ?B c ''btn'' None =
             \<lparr>fileName = ''btn.stories.ts'', content = ''export default meta;'',
              language = ''typescript'', artifactSize = 20\<rparr>" for c
    by code_simp
  have e: "errors (parseGeminiResponse ?B exampleResponse ''btn'' None) \<noteq> []"
    by code_simp
  have i: "incomplete \<lparr>typescript = Some ?t, html = None, scss = None, story = None,
             errors = [''Gatekeeper error: No html code block found'']\<rparr>"
    by (simp add: incomplete_def missingOrEmpty_def)
  have A: "parseGeminiResponse ?A exampleResponse ''btn'' None =
      \<lparr>typescript = Some ?t, html = None, scss = None, story = None,
       errors = [''Gatekeeper error: No html code block found'']\<rparr>"
    using extraction_failure_is_explicit
         [of ?A exampleResponse "''btn''" None "''No html code block found''" ?t ?h ?s]
    by (simp add: Let_def a1 a2)
  have B: "\<exists>ts. typescript (parseGeminiResponse ?B exampleResponse ''btn'' None) = Some ts \<and>
      story (parseGeminiResponse ?B exampleResponse ''btn'' None) =
        Some (generatedStory ?B (content ts) ''btn'' None)"
    using extraction_failure_is_explicit
         [of ?B exampleResponse "''btn''" None "''No typescript code block found''" ?t ?h ?s]
         b4
    by (simp add: Let_def b1 b2 b3)
  show ?thesis
    using A B e i by (auto simp: g)
qed

section \<open>The colour helpers: rounding\<close>

lemma pow2_pos [simp]: "0 < pow2 e"
  by (simp add: pow2_def)

lemma pow2_mono: "a \<le> b \<Longrightarrow> pow2 a \<le> pow2 b"
  by (simp add: pow2_def power_int_increasing)

lemma pow2_less_cancel:
  assumes "pow2 a \<le> x" and "x < pow2 b"
  shows "a < b"
proof (rule ccontr)
  assume "\<not> a < b"
  then have "pow2 b \<le> pow2 a" by (simp add: pow2_mono)
  then show False using assms by simp
qed

lemma pow2_diff: "pow2 (a - b) = pow2 a / pow2 b"
  by (simp add: pow2_def power_int_diff)

lemma pow2_nat: "pow2 (int n) = 2 ^ n"
  by (simp add: pow2_def)

lemma pow2_half: "pow2 (k - 1) = pow2 k / 2"
  using power_int_minus_mult [of "2::rat" k] by (simp add: pow2_def)

text \<open>The exponent of a number that is not zero brackets it between two powers of two.\<close>

lemma bitLength_bounds:
  "0 < n \<Longrightarrow> 0 < bitLength n \<and> 2 ^ nat (bitLength n - 1) \<le> n \<and> n < 2 ^ nat (bitLength n)"
proof (induction n rule: bitLength.induct)
  case (1 n)
  show ?case
  proof (cases "n div 2 = 0")
    case True
    then have n1: "n = 1" using 1(2) by presburger
    have "bitLength 1 = 1"
      by (simp add: bitLength.simps [of 1] bitLength.simps [of 0])
    then show ?thesis using n1 by simp
  next
    case False
    then have m: "0 < n div 2" using 1(2) by presburger
    have ih: "0 < bitLength (n div 2) \<and> 2 ^ nat (bitLength (n div 2) - 1) \<le> n div 2 \<and>
              n div 2 < 2 ^ nat (bitLength (n div 2))"
      using 1(1) 1(2) m by simp
    define k where "k = bitLength (n div 2)"
    have bl: "bitLength n = 1 + k"
      using 1(2) by (simp add: bitLength.simps [of n] k_def)
    have kp: "0 < k" using ih by (simp add: k_def)
    have e: "nat (1 + k - 1) = Suc (nat (k - 1))" "nat (1 + k) = Suc (nat k)"
      using kp by simp_all
    have lo: "(2::int) ^ Suc (nat (k - 1)) \<le> n"
      using ih by (simp add: k_def) presburger
    have "n div 2 + 1 \<le> 2 ^ nat k" using ih by (simp add: k_def)
    then have hi: "n < (2::int) ^ Suc (nat k)" by simp
    show ?thesis using bl kp lo hi e by simp
  qed
qed

lemma bitLength_pow2:
  assumes "0 < n"
  shows "pow2 (bitLength n - 1) \<le> of_int n" and "of_int n < pow2 (bitLength n)"
proof -
  have b: "0 < bitLength n" "2 ^ nat (bitLength n - 1) \<le> n" "n < 2 ^ nat (bitLength n)"
    using bitLength_bounds [OF assms] by simp_all
  have "pow2 (bitLength n - 1) = pow2 (int (nat (bitLength n - 1)))" using b(1) by simp
  also have "\<dots> = of_int (2 ^ nat (bitLength n - 1))" by (simp only: pow2_nat) simp
  also have "\<dots> \<le> of_int n" using b(2) by (simp only: of_int_le_iff)
  finally show "pow2 (bitLength n - 1) \<le> of_int n" .
  have "(of_int n :: rat) < of_int (2 ^ nat (bitLength n))" using b(3) by (simp only: of_int_less_iff)
  also have "\<dots> = pow2 (int (nat (bitLength n)))" by (simp only: pow2_nat) simp
  also have "\<dots> = pow2 (bitLength n)" using b(1) by simp
  finally show "of_int n < pow2 (bitLength n)" .
qed

lemma expo_bounds:
  assumes "x \<noteq> 0"
  shows "pow2 (expo x) \<le> \<bar>x\<bar>" and "\<bar>x\<bar> < pow2 (expo x + 1)"
proof -
  obtain p q where pq: "quotient_of \<bar>x\<bar> = (p, q)" by (cases "quotient_of \<bar>x\<bar>")
  have q: "0 < q" using pq by (rule quotient_of_denom_pos)
  have x: "\<bar>x\<bar> = of_int p / of_int q" using pq by (rule quotient_of_div)
  have "0 < \<bar>x\<bar>" using assms by simp
  then have p: "0 < p" using x q by (simp add: zero_less_divide_iff)
  define k where "k = bitLength p - bitLength q"
  have e: "expo x = (if pow2 k \<le> \<bar>x\<bar> then k else k - 1)"
    by (simp add: expo_def pq k_def Let_def)
  have qr: "(0::rat) < of_int q" using q by simp
  have lo: "pow2 (k - 1) \<le> \<bar>x\<bar>"
  proof -
    have "pow2 (k - 1) = pow2 (bitLength p - 1) / pow2 (bitLength q)"
      by (simp add: k_def pow2_diff [symmetric] algebra_simps)
    also have "\<dots> \<le> of_int p / pow2 (bitLength q)"
      by (rule divide_right_mono [OF bitLength_pow2(1) [OF p]]) (simp add: less_imp_le)
    also have "\<dots> \<le> of_int p / of_int q"
      using bitLength_pow2(2) [OF q] p qr by (simp add: frac_le)
    finally show ?thesis by (simp add: x)
  qed
  have hi: "\<bar>x\<bar> < pow2 (k + 1)"
  proof -
    have "of_int p / of_int q < pow2 (bitLength p) / (of_int q :: rat)"
      using bitLength_pow2(2) [OF p] qr by (simp add: divide_strict_right_mono)
    also have "\<dots> \<le> pow2 (bitLength p) / pow2 (bitLength q - 1)"
      by (rule frac_le) (simp_all add: less_imp_le bitLength_pow2(1) [OF q])
    also have "\<dots> = pow2 (k + 1)"
      by (simp add: k_def pow2_diff [symmetric] algebra_simps)
    finally show ?thesis by (simp add: x)
  qed
  show "pow2 (expo x) \<le> \<bar>x\<bar>" using lo by (simp add: e)
  show "\<bar>x\<bar> < pow2 (expo x + 1)" using hi by (auto simp add: e)
qed

text \<open>
  Rounding moves a result by half a unit in the last place at most: a result below
  \<open>2 ^ k\<close> in magnitude, \<open>k\<close> in the range of the normal exponents, has a binary64
  value, which is at most \<open>2 ^ (k - 54)\<close> away.
\<close>

lemma roundEven_close: "\<bar>of_int (roundEven q) - q\<bar> \<le> 1 / 2"
proof -
  have "of_int \<lfloor>q\<rfloor> \<le> q" "q < of_int \<lfloor>q\<rfloor> + 1" by linarith+
  then show ?thesis by (auto simp add: roundEven_def Let_def)
qed


lemma expo_zero: "expo 0 = - 2"
proof -
  have "bitLength 0 = 0" "bitLength 1 = 1"
    by (simp_all add: bitLength.simps [of 1] bitLength.simps [of 0])
  then show ?thesis by (simp add: expo_def pow2_def power_int_def)
qed

lemma fl_close:
  assumes "\<bar>x\<bar> < pow2 k" and "- 1021 \<le> k" and "k \<le> 1023"
  shows "\<exists>y. fl x = Some y \<and> \<bar>y - x\<bar> \<le> pow2 (k - 54)"
proof (cases "x = 0")
  case True
  then show ?thesis by (simp add: fl_def less_imp_le)
next
  case False
  define u where "u = ulp x"
  define y where "y = of_int (roundEven (x / u)) * u"
  have ek: "expo x < k"
    using expo_bounds(1) [OF False] assms(1) by (rule pow2_less_cancel)
  have up: "0 < u" by (simp add: u_def ulp_def)
  have "u \<le> pow2 (k - 53)"
    unfolding u_def ulp_def using ek assms(2) by (intro pow2_mono) simp
  then have uh: "u / 2 \<le> pow2 (k - 54)"
    using pow2_half [of "k - 53"] by simp
  have "y - x = (of_int (roundEven (x / u)) - x / u) * u"
    using up by (simp add: y_def algebra_simps)
  then have "\<bar>y - x\<bar> = \<bar>of_int (roundEven (x / u)) - x / u\<bar> * u"
    using up by (simp add: abs_mult)
  also have "\<dots> \<le> 1 / 2 * u"
    using roundEven_close [of "x / u"] up by (intro mult_right_mono) simp_all
  finally have cl: "\<bar>y - x\<bar> \<le> pow2 (k - 54)" using uh by simp
  have fin: "expo y < 1024"
  proof (cases "y = 0")
    case True
    then show ?thesis by (simp add: expo_zero)
  next
    case False
    have "pow2 (k - 54) \<le> pow2 k" by (rule pow2_mono) simp
    then have "\<bar>y\<bar> < pow2 k + pow2 k" using cl assms(1) by linarith
    also have "\<dots> = pow2 (k + 1)" using pow2_half [of "k + 1"] by simp
    also have "\<dots> \<le> pow2 1024" using assms(3) by (intro pow2_mono) simp
    finally show ?thesis using expo_bounds(1) [OF False] pow2_less_cancel by blast
  qed
  have "fl x = Some y"
    using False fin by (simp add: fl_def Let_def y_def u_def)
  then show ?thesis using cl by simp
qed

lemma fl_step:
  assumes "- c < x" and "x < c" and "c = pow2 k" and "d = pow2 (k - 54)"
      and "- 1021 \<le> k" and "k \<le> 1023"
  shows "\<exists>y. fl x = Some y \<and> x - d \<le> y \<and> y \<le> x + d"
proof -
  have "\<bar>x\<bar> < pow2 k" using assms(1,2,3) by simp
  then obtain y where "fl x = Some y" "\<bar>y - x\<bar> \<le> d"
    using fl_close [OF _ assms(5,6)] assms(4) by blast
  then show ?thesis by (simp add: abs_diff_le_iff)
qed

section \<open>The colour helpers: the computed luminance\<close>

text \<open>
  The three literals of the luminance, and the nine operations one after the other, each
  with the bound that its range allows, for channels between 0 and 1.
\<close>

lemma fmul_step:
  assumes "- c < a * b" and "a * b < c" and "c = pow2 k" and "d = pow2 (k - 54)"
      and "- 1021 \<le> k" and "k \<le> 1023"
  shows "\<exists>y. fmul a b = Some y \<and> a * b - d \<le> y \<and> y \<le> a * b + d"
  unfolding fmul_def using assms by (rule fl_step)

lemma fadd_step:
  assumes "- c < a + b" and "a + b < c" and "c = pow2 k" and "d = pow2 (k - 54)"
      and "- 1021 \<le> k" and "k \<le> 1023"
  shows "\<exists>y. fadd a b = Some y \<and> a + b - d \<le> y \<and> y \<le> a + b + d"
  unfolding fadd_def using assms by (rule fl_step)

lemma fdiv_step:
  assumes "- c < a / b" and "a / b < c" and "c = pow2 k" and "d = pow2 (k - 54)"
      and "- 1021 \<le> k" and "k \<le> 1023" and "b \<noteq> 0"
  shows "\<exists>y. fdiv a b = Some y \<and> a / b - d \<le> y \<and> y \<le> a / b + d"
  unfolding fdiv_def using assms by (simp add: fl_step)

lemma literal_299: "fl (299 / 1000) = Some (5386305154335113 / 18014398509481984)"
  by code_simp

lemma literal_587: "fl (587 / 1000) = Some (2643612981266481 / 4503599627370496)"
  by code_simp

lemma literal_114: "fl (114 / 1000) = Some (8214565720323785 / 72057594037927936)"
  by code_simp

lemma luminance_close:
  assumes "0 \<le> r" "r \<le> 1" "0 \<le> g" "g \<le> 1" "0 \<le> b" "b \<le> 1"
  shows "\<exists>lum. luminance r g b = Some lum \<and>
           exactLuminance r g b - 1 / 2 ^ 50 < lum \<and> lum < exactLuminance r g b + 1 / 2 ^ 50"
proof -
  have x1_lo: "- (1 / 2) < 5386305154335113 / 18014398509481984 * r" and x1_hi: "5386305154335113 / 18014398509481984 * r < 1 / 2"
    using assms by linarith+
  have "\<exists>y. fmul (5386305154335113 / 18014398509481984) (r) = Some y \<and> 5386305154335113 / 18014398509481984 * r - 1 / 36028797018963968 \<le> y \<and> y \<le> 5386305154335113 / 18014398509481984 * r + 1 / 36028797018963968"
    by (rule fmul_step [OF x1_lo x1_hi, where k = "-1"]) (simp_all add: pow2_def power_int_def power_divide)
  then obtain x1 where x1: "fmul (5386305154335113 / 18014398509481984) (r) = Some x1"
      "5386305154335113 / 18014398509481984 * r - 1 / 36028797018963968 \<le> x1" "x1 \<le> 5386305154335113 / 18014398509481984 * r + 1 / 36028797018963968"
    by blast
  have x2_lo: "- (128) < x1 * 255" and x2_hi: "x1 * 255 < 128"
    using x1(2,3) assms by linarith+
  have "\<exists>y. fmul (x1) (255) = Some y \<and> x1 * 255 - 1 / 140737488355328 \<le> y \<and> y \<le> x1 * 255 + 1 / 140737488355328"
    by (rule fmul_step [OF x2_lo x2_hi, where k = "7"]) (simp_all add: pow2_def power_int_def power_divide)
  then obtain x2 where x2: "fmul (x1) (255) = Some x2"
      "x1 * 255 - 1 / 140737488355328 \<le> x2" "x2 \<le> x1 * 255 + 1 / 140737488355328"
    by blast
  have y1_lo: "- (1) < 2643612981266481 / 4503599627370496 * g" and y1_hi: "2643612981266481 / 4503599627370496 * g < 1"
    using assms by linarith+
  have "\<exists>y. fmul (2643612981266481 / 4503599627370496) (g) = Some y \<and> 2643612981266481 / 4503599627370496 * g - 1 / 18014398509481984 \<le> y \<and> y \<le> 2643612981266481 / 4503599627370496 * g + 1 / 18014398509481984"
    by (rule fmul_step [OF y1_lo y1_hi, where k = "0"]) (simp_all add: pow2_def power_int_def power_divide)
  then obtain y1 where y1: "fmul (2643612981266481 / 4503599627370496) (g) = Some y1"
      "2643612981266481 / 4503599627370496 * g - 1 / 18014398509481984 \<le> y1" "y1 \<le> 2643612981266481 / 4503599627370496 * g + 1 / 18014398509481984"
    by blast
  have y2_lo: "- (256) < y1 * 255" and y2_hi: "y1 * 255 < 256"
    using y1(2,3) assms by linarith+
  have "\<exists>y. fmul (y1) (255) = Some y \<and> y1 * 255 - 1 / 70368744177664 \<le> y \<and> y \<le> y1 * 255 + 1 / 70368744177664"
    by (rule fmul_step [OF y2_lo y2_hi, where k = "8"]) (simp_all add: pow2_def power_int_def power_divide)
  then obtain y2 where y2: "fmul (y1) (255) = Some y2"
      "y1 * 255 - 1 / 70368744177664 \<le> y2" "y2 \<le> y1 * 255 + 1 / 70368744177664"
    by blast
  have s1_lo: "- (256) < x2 + y2" and s1_hi: "x2 + y2 < 256"
    using x1(2,3) x2(2,3) y1(2,3) y2(2,3) assms by linarith+
  have "\<exists>y. fadd (x2) (y2) = Some y \<and> x2 + y2 - 1 / 70368744177664 \<le> y \<and> y \<le> x2 + y2 + 1 / 70368744177664"
    by (rule fadd_step [OF s1_lo s1_hi, where k = "8"]) (simp_all add: pow2_def power_int_def power_divide)
  then obtain s1 where s1: "fadd (x2) (y2) = Some s1"
      "x2 + y2 - 1 / 70368744177664 \<le> s1" "s1 \<le> x2 + y2 + 1 / 70368744177664"
    by blast
  have z1_lo: "- (1 / 8) < 8214565720323785 / 72057594037927936 * b" and z1_hi: "8214565720323785 / 72057594037927936 * b < 1 / 8"
    using assms by linarith+
  have "\<exists>y. fmul (8214565720323785 / 72057594037927936) (b) = Some y \<and> 8214565720323785 / 72057594037927936 * b - 1 / 144115188075855872 \<le> y \<and> y \<le> 8214565720323785 / 72057594037927936 * b + 1 / 144115188075855872"
    by (rule fmul_step [OF z1_lo z1_hi, where k = "-3"]) (simp_all add: pow2_def power_int_def power_divide)
  then obtain z1 where z1: "fmul (8214565720323785 / 72057594037927936) (b) = Some z1"
      "8214565720323785 / 72057594037927936 * b - 1 / 144115188075855872 \<le> z1" "z1 \<le> 8214565720323785 / 72057594037927936 * b + 1 / 144115188075855872"
    by blast
  have z2_lo: "- (32) < z1 * 255" and z2_hi: "z1 * 255 < 32"
    using z1(2,3) assms by linarith+
  have "\<exists>y. fmul (z1) (255) = Some y \<and> z1 * 255 - 1 / 562949953421312 \<le> y \<and> y \<le> z1 * 255 + 1 / 562949953421312"
    by (rule fmul_step [OF z2_lo z2_hi, where k = "5"]) (simp_all add: pow2_def power_int_def power_divide)
  then obtain z2 where z2: "fmul (z1) (255) = Some z2"
      "z1 * 255 - 1 / 562949953421312 \<le> z2" "z2 \<le> z1 * 255 + 1 / 562949953421312"
    by blast
  have s2_lo: "- (256) < s1 + z2" and s2_hi: "s1 + z2 < 256"
    using x1(2,3) x2(2,3) y1(2,3) y2(2,3) s1(2,3) z1(2,3) z2(2,3) assms by linarith+
  have "\<exists>y. fadd (s1) (z2) = Some y \<and> s1 + z2 - 1 / 70368744177664 \<le> y \<and> y \<le> s1 + z2 + 1 / 70368744177664"
    by (rule fadd_step [OF s2_lo s2_hi, where k = "8"]) (simp_all add: pow2_def power_int_def power_divide)
  then obtain s2 where s2: "fadd (s1) (z2) = Some s2"
      "s1 + z2 - 1 / 70368744177664 \<le> s2" "s2 \<le> s1 + z2 + 1 / 70368744177664"
    by blast
  have lum_lo: "- (2) < s2 / 255" and lum_hi: "s2 / 255 < 2"
    using x1(2,3) x2(2,3) y1(2,3) y2(2,3) s1(2,3) z1(2,3) z2(2,3) s2(2,3) assms by linarith+
  have "\<exists>y. fdiv (s2) (255) = Some y \<and> s2 / 255 - 1 / 9007199254740992 \<le> y \<and> y \<le> s2 / 255 + 1 / 9007199254740992"
    by (rule fdiv_step [OF lum_lo lum_hi, where k = "1"]) (simp_all add: pow2_def power_int_def power_divide)
  then obtain lum where lum: "fdiv (s2) (255) = Some lum"
      "s2 / 255 - 1 / 9007199254740992 \<le> lum" "lum \<le> s2 / 255 + 1 / 9007199254740992"
    by blast
  have l3: "fl (57 / 500) = Some (8214565720323785 / 72057594037927936)"
    using literal_114 by simp
  have v: "luminance r g b = Some lum"
    by (simp add: luminance_def literal_299 literal_587 l3
          x1(1) x2(1) y1(1) y2(1) s1(1) z1(1) z2(1) s2(1) lum(1))
  have lo: "exactLuminance r g b - 1 / 2 ^ 50 < lum"
    unfolding exactLuminance_def using x1(2,3) x2(2,3) y1(2,3) y2(2,3) s1(2,3) z1(2,3) z2(2,3) s2(2,3) lum(2,3) assms by simp
  have hi: "lum < exactLuminance r g b + 1 / 2 ^ 50"
    unfolding exactLuminance_def using x1(2,3) x2(2,3) y1(2,3) y2(2,3) s1(2,3) z1(2,3) z2(2,3) s2(2,3) lum(2,3) assms by simp
  show ?thesis using v lo hi by blast
qed

lemma contrast_of_luminance:
  "luminance r g b = Some lum \<Longrightarrow>
   getContrastColor r g b = Some (if 1 / 2 < lum then ''#000000'' else ''#FFFFFF'')"
  by (simp add: getContrastColor_def)

text \<open>
  A colour of exact luminance one half for which the computed luminance is one half too,
  and the contrast colour white.
\<close>

lemma grey_boundary_white:
  "exactLuminance (1 / 2) (1 / 2) (1 / 2) = 1 / 2 \<and>
   luminance (1 / 2) (1 / 2) (1 / 2) = Some (1 / 2) \<and>
   getContrastColor (1 / 2) (1 / 2) (1 / 2) = Some ''#FFFFFF''"
proof -
  have l: "luminance (1 / 2) (1 / 2) (1 / 2) = Some (1 / 2)" by code_simp
  show ?thesis
    using contrast_of_luminance [OF l] by (simp add: l exactLuminance_def)
qed

text \<open>
  Claim C7. \<open>rgbToHex(1,0,0)\<close> is \<open>#FF0000\<close>; the contrast colour of \<open>(1,0,0)\<close>, of
  computed luminance 0.299 (the binary64 value of the literal), is white and the one of
  \<open>(1,1,1)\<close>, of computed luminance 1, is black. The contrast colour is black exactly
  when the luminance that the code computes is above one half. For channels between 0
  and 1 the computed luminance is less than \<open>2 ^ -50\<close> away from
  \<open>L = 0.299r + 0.587g + 0.114b\<close>: a colour with \<open>L\<close> at least \<open>1/2 + 2 ^ -50\<close> gets
  black and one with \<open>L\<close> at most \<open>1/2 - 2 ^ -50\<close> gets white.
\<close>

theorem contrast_follows_computed_luminance:
  "rgbToHex 1 0 0 = Some ''#FF0000'' \<and>
   luminance 1 0 0 = fl (299 / 1000) \<and>
   getContrastColor 1 0 0 = Some ''#FFFFFF'' \<and>
   luminance 1 1 1 = Some 1 \<and>
   getContrastColor 1 1 1 = Some ''#000000'' \<and>
   (0 \<le> r \<and> r \<le> 1 \<and> 0 \<le> g \<and> g \<le> 1 \<and> 0 \<le> b \<and> b \<le> 1 \<longrightarrow>
      (\<exists>lum. luminance r g b = Some lum \<and>
             \<bar>lum - exactLuminance r g b\<bar> < 1 / 2 ^ 50 \<and>
             getContrastColor r g b =
               Some (if 1 / 2 < lum then ''#000000'' else ''#FFFFFF'')) \<and>
      (1 / 2 + 1 / 2 ^ 50 \<le> exactLuminance r g b \<longrightarrow>
         getContrastColor r g b = Some ''#000000'') \<and>
      (exactLuminance r g b \<le> 1 / 2 - 1 / 2 ^ 50 \<longrightarrow>
         getContrastColor r g b = Some ''#FFFFFF''))"
proof -
  have a: "rgbToHex 1 0 0 = Some ''#FF0000''" by code_simp
  have b': "luminance 1 0 0 = Some (5386305154335113 / 18014398509481984)" by code_simp
  have b: "luminance 1 0 0 = fl (299 / 1000)" by (simp only: b' literal_299)
  have c: "getContrastColor 1 0 0 = Some ''#FFFFFF''"
    using contrast_of_luminance [OF b'] by simp
  have d: "luminance 1 1 1 = Some 1" by code_simp
  have e: "getContrastColor 1 1 1 = Some ''#000000''"
    using contrast_of_luminance [OF d] by simp
  have f: "(\<exists>lum. luminance r g b = Some lum \<and>
             \<bar>lum - exactLuminance r g b\<bar> < 1 / 2 ^ 50 \<and>
             getContrastColor r g b =
               Some (if 1 / 2 < lum then ''#000000'' else ''#FFFFFF'')) \<and>
      (1 / 2 + 1 / 2 ^ 50 \<le> exactLuminance r g b \<longrightarrow>
         getContrastColor r g b = Some ''#000000'') \<and>
      (exactLuminance r g b \<le> 1 / 2 - 1 / 2 ^ 50 \<longrightarrow>
         getContrastColor r g b = Some ''#FFFFFF'')"
    if h: "0 \<le> r" "r \<le> 1" "0 \<le> g" "g \<le> 1" "0 \<le> b" "b \<le> 1"
  proof -
    obtain lum where l: "luminance r g b = Some lum"
        "exactLuminance r g b - 1 / 2 ^ 50 < lum" "lum < exactLuminance r g b + 1 / 2 ^ 50"
      using luminance_close [OF h] by blast
    have k: "getContrastColor r g b = Some (if 1 / 2 < lum then ''#000000'' else ''#FFFFFF'')"
      using l(1) by (rule contrast_of_luminance)
    have m: "\<bar>lum - exactLuminance r g b\<bar> < 1 / 2 ^ 50"
      using l(2,3) by linarith
    have n: "getContrastColor r g b = Some ''#000000''"
      if "1 / 2 + 1 / 2 ^ 50 \<le> exactLuminance r g b"
    proof -
      have "1 / 2 < lum" using that l(2) by linarith
      then show ?thesis by (simp add: k)
    qed
    have o: "getContrastColor r g b = Some ''#FFFFFF''"
      if "exactLuminance r g b \<le> 1 / 2 - 1 / 2 ^ 50"
    proof -
      have "\<not> 1 / 2 < lum" using that l(3) by linarith
      then show ?thesis by (simp add: k)
    qed
    show ?thesis using l(1) k m n o by blast
  qed
  show ?thesis using a b c d e f by blast
qed

theorem contrast_follows_computed_luminance_witness:
  "(\<exists>lum. luminance (1 / 4) (1 / 2) (3 / 4) = Some lum \<and>
          \<bar>lum - 363 / 800\<bar> < 1 / 2 ^ 50 \<and>
          getContrastColor (1 / 4) (1 / 2) (3 / 4) =
            Some (if 1 / 2 < lum then ''#000000'' else ''#FFFFFF'')) \<and>
   getContrastColor (3 / 4) (3 / 4) (3 / 4) = Some ''#000000'' \<and>
   getContrastColor (1 / 4) (1 / 2) (3 / 4) = Some ''#FFFFFF''"
proof -
  have x: "exactLuminance (1 / 4) (1 / 2) (3 / 4) = 363 / 800"
    by (simp add: exactLuminance_def)
  have y: "exactLuminance (3 / 4) (3 / 4) (3 / 4) = 3 / 4"
    by (simp add: exactLuminance_def)
  have r1: "0 \<le> (1 / 4 :: rat) \<and> (1 / 4 :: rat) \<le> 1 \<and> 0 \<le> (1 / 2 :: rat) \<and>
            (1 / 2 :: rat) \<le> 1 \<and> 0 \<le> (3 / 4 :: rat) \<and> (3 / 4 :: rat) \<le> 1"
    by simp
  have r2: "0 \<le> (3 / 4 :: rat) \<and> (3 / 4 :: rat) \<le> 1 \<and> 0 \<le> (3 / 4 :: rat) \<and>
            (3 / 4 :: rat) \<le> 1 \<and> 0 \<le> (3 / 4 :: rat) \<and> (3 / 4 :: rat) \<le> 1"
    by simp
  note p = contrast_follows_computed_luminance [of "1 / 4" "1 / 2" "3 / 4",
      THEN conjunct2, THEN conjunct2, THEN conjunct2, THEN conjunct2, THEN conjunct2,
      THEN mp, OF r1]
  note q = contrast_follows_computed_luminance [of "3 / 4" "3 / 4" "3 / 4",
      THEN conjunct2, THEN conjunct2, THEN conjunct2, THEN conjunct2, THEN conjunct2,
      THEN mp, OF r2]
  have a: "\<exists>lum. luminance (1 / 4) (1 / 2) (3 / 4) = Some lum \<and>
          \<bar>lum - 363 / 800\<bar> < 1 / 2 ^ 50 \<and>
          getContrastColor (1 / 4) (1 / 2) (3 / 4) =
            Some (if 1 / 2 < lum then ''#000000'' else ''#FFFFFF'')"
    using p [THEN conjunct1] by (simp only: x)
  have "(1 / 2 + 1 / 2 ^ 50 :: rat) \<le> exactLuminance (3 / 4) (3 / 4) (3 / 4)"
    by (simp add: y)
  then have b: "getContrastColor (3 / 4) (3 / 4) (3 / 4) = Some ''#000000''"
    by (rule q [THEN conjunct2, THEN conjunct1, THEN mp])
  have "exactLuminance (1 / 4) (1 / 2) (3 / 4) \<le> (1 / 2 - 1 / 2 ^ 50 :: rat)"
    by (simp add: x)
  then have c: "getContrastColor (1 / 4) (1 / 2) (3 / 4) = Some ''#FFFFFF''"
    by (rule p [THEN conjunct2, THEN conjunct2, THEN mp])
  show ?thesis using a b c by (intro conjI)
qed

text \<open>
  Claim C7, as stated, fails: the colour \<open>(31/32, 7/32, 23/32)\<close>, three binary64 values,
  has the luminance \<open>L\<close> exactly one half; the luminance that the code computes for it
  is \<open>1/2 + 2 ^ -53\<close>, and its contrast colour is black, not white.
\<close>

theorem boundary_luminance_black:
  "exactLuminance (31 / 32) (7 / 32) (23 / 32) = 1 / 2 \<and>
   luminance (31 / 32) (7 / 32) (23 / 32) = Some (1 / 2 + 1 / 2 ^ 53) \<and>
   getContrastColor (31 / 32) (7 / 32) (23 / 32) = Some ''#000000'' \<and>
   getContrastColor (31 / 32) (7 / 32) (23 / 32) \<noteq> Some ''#FFFFFF''"
proof -
  have l: "luminance (31 / 32) (7 / 32) (23 / 32) = Some (4503599627370497 / 9007199254740992)"
    by code_simp
  show ?thesis
    using contrast_of_luminance [OF l] by (simp add: l exactLuminance_def)
qed

end
